theory Spec2Isabelle
  imports Complex_Main
begin

section \<open>Python exceptions\<close>

text \<open>
  Every exception the modelled functions can raise is a value of \<open>error\<close>; a function
  that may raise returns \<open>error + 'a\<close> with \<open>Inl\<close> for the exception.
\<close>

datatype error =
    ValueError
  | KeyError
  | MergeError
  | ParserError
  | IntegrityError
  | OverflowError
  | AttributeError

section \<open>load.py: chunking\<close>

text \<open>
  \<^verbatim>\<open>
  def _chunked(iterable, size):
      iterator = iter(iterable)
      while True:
          chunk = list(islice(iterator, size))
          if not chunk:
              break
          yield chunk
  \<close>
  \<open>islice(iterator, size)\<close> takes the next \<open>size\<close> elements (fewer at the end). It
  checks its argument first and raises ValueError unless \<open>0 <= size <= sys.maxsize\<close>;
  \<open>sys.maxsize\<close> is \<open>2 ** 63 - 1\<close> on a 64-bit interpreter. The size is written \<open>sz\<close>
  below. The loop is \<open>chunked_loop\<close>; the elements not yet consumed by the iterator are
  its first argument.
\<close>

definition sys_maxsize :: int where
  "sys_maxsize = 2 ^ 63 - 1"

function chunked_loop :: "'a list \<Rightarrow> nat \<Rightarrow> 'a list list" where
  "chunked_loop it sz =
     (if take sz it = [] then []
      else take sz it # chunked_loop (drop sz it) sz)"
  by pat_completeness auto
termination
  by (relation "measure (\<lambda>(it, sz). length it)") auto

declare chunked_loop.simps [simp del]

definition chunked :: "'a list \<Rightarrow> int \<Rightarrow> error + 'a list list" where
  "chunked iterable sz =
     (if sz < 0 \<or> sys_maxsize < sz then Inl ValueError
      else Inr (chunked_loop iterable (nat sz)))"

section \<open>The store\<close>

text \<open>
  Modelled from the spec: the schema (\<open>sql/schema.sql\<close>, read by \<open>load_schema\<close>) is not
  among the sources. The tables, their keys and their foreign keys follow the data model
  of the specification: \<open>movies\<close> with primary key \<open>movieId\<close>; \<open>genres\<close> with a generated
  \<open>genreId\<close> and a unique \<open>genreName\<close>; \<open>movie_genres\<close> with the pair as key and foreign
  keys to \<open>movies\<close> and \<open>genres\<close>; \<open>ratings\<close> with the unique key
  \<open>(userId, movieId, timestamp)\<close> and a foreign key to \<open>movies\<close>; \<open>movie_details\<close> with
  key \<open>movieId\<close> and a foreign key to \<open>movies\<close>. \<open>get_connection\<close> switches foreign-key
  enforcement on, so a statement that would leave a dangling reference raises
  IntegrityError; \<open>OR IGNORE\<close> skips a row whose key is taken and \<open>OR REPLACE\<close> deletes
  the row that holds the key before inserting.
\<close>

type_synonym movie_row = "int \<times> string \<times> int option \<times> string option"
type_synonym genre_row = "int \<times> string"
type_synonym movie_genre_row = "int \<times> int"
type_synonym rating_row = "int \<times> int \<times> rat \<times> int"

record detail_row =
  d_movieId :: int
  d_director :: "string option"
  d_plot :: "string option"
  d_boxOffice :: "string option"
  d_imdbRating :: "string option"
  d_runtime :: "string option"
  d_actors :: "string option"
  d_country :: "string option"
  d_language :: "string option"
  d_awards :: "string option"
  d_apiResponseJson :: "string option"

record db =
  movies :: "movie_row list"
  genres :: "genre_row list"
  movie_genres :: "movie_genre_row list"
  ratings :: "rating_row list"
  movie_details :: "detail_row list"

definition movie_ids :: "db \<Rightarrow> int set" where
  "movie_ids d = set (map fst (movies d))"


definition rating_key :: "rating_row \<Rightarrow> int \<times> int \<times> int" where
  "rating_key r = (case r of (u, m, x, t) \<Rightarrow> (u, m, t))"

definition next_genre_id :: "genre_row list \<Rightarrow> int" where
  "next_genre_id gs = fold max (map fst gs) 0 + 1"

text \<open>
  One execution of a statement for one parameter tuple: the exception, or the number of
  rows changed and the new contents. A statement that raises leaves the contents as they
  were.
\<close>

type_synonym 'r query = "'r \<Rightarrow> db \<Rightarrow> error + nat \<times> db"

definition sql_insert_movie :: "movie_row query" where
  \<comment> \<open>INSERT OR IGNORE INTO movies (movieId, title, year, imdbId) VALUES (?, ?, ?, ?)\<close>
  "sql_insert_movie r d =
     (if fst r \<in> movie_ids d then Inr (0, d)
      else Inr (1, d\<lparr>movies := movies d @ [r]\<rparr>))"

definition sql_insert_genre :: "string query" where
  \<comment> \<open>INSERT OR IGNORE INTO genres (genreName) VALUES (?)\<close>
  "sql_insert_genre g d =
     (if g \<in> set (map snd (genres d)) then Inr (0, d)
      else Inr (1, d\<lparr>genres := genres d @ [(next_genre_id (genres d), g)]\<rparr>))"


definition sql_insert_rating :: "rating_row query" where
  \<comment> \<open>INSERT OR IGNORE INTO ratings (userId, movieId, rating, timestamp) VALUES (?, ?, ?, ?)\<close>
  "sql_insert_rating r d =
     (if rating_key r \<in> set (map rating_key (ratings d)) then Inr (0, d)
      else if fst (snd r) \<notin> movie_ids d then Inl IntegrityError
      else Inr (1, d\<lparr>ratings := ratings d @ [r]\<rparr>))"


section \<open>database.py: the connection and its transaction\<close>

text \<open>
  A connection holds the contents as last committed, the contents as the connection
  sees them (with the changes of the open transaction) and the counter
  \<open>total_changes\<close>. \<open>commit\<close> makes the pending contents the committed ones,
  \<open>rollback\<close> discards them.
  \<^verbatim>\<open>
  @contextmanager
  def transaction(connection):
      cursor = connection.cursor()
      try:
          yield cursor
          connection.commit()
      except Exception:
          connection.rollback()
          raise
  \<close>
\<close>

record connection =
  committed :: db
  pending :: db
  total_changes :: nat

definition commit :: "connection \<Rightarrow> connection" where
  "commit c = c\<lparr>committed := pending c\<rparr>"

definition rollback :: "connection \<Rightarrow> connection" where
  "rollback c = c\<lparr>pending := committed c\<rparr>"

definition transaction ::
  "connection \<Rightarrow> (connection \<Rightarrow> (error + 'a) \<times> connection) \<Rightarrow> (error + 'a) \<times> connection" where
  "transaction c body =
     (case body c of
        (Inr v, c') \<Rightarrow> (Inr v, commit c')
      | (Inl e, c') \<Rightarrow> (Inl e, rollback c'))"

text \<open>
  \<open>create_schema\<close> on a new database file leaves every table present and empty, and
  nothing pending.
\<close>

definition empty_store :: db where
  "empty_store = \<lparr>movies = [], genres = [], movie_genres = [], ratings = [], movie_details = []\<rparr>"

definition fresh_connection :: connection where
  "fresh_connection = \<lparr>committed = empty_store, pending = empty_store, total_changes = 0\<rparr>"

section \<open>load.py: the loaders\<close>

text \<open>
  \<open>cursor.executemany(query, chunk)\<close> executes the statement once per tuple, in order,
  and stops at the first tuple whose execution raises; the rows before it stay in the
  open transaction.
\<close>

fun executemany :: "'r query \<Rightarrow> 'r list \<Rightarrow> connection \<Rightarrow> (error + unit) \<times> connection" where
  "executemany query [] c = (Inr (), c)"
| "executemany query (r # rs) c =
     (case query r (pending c) of
        Inl e \<Rightarrow> (Inl e, c)
      | Inr (n, d') \<Rightarrow>
          executemany query rs (c\<lparr>pending := d', total_changes := total_changes c + n\<rparr>))"

text \<open>
  \<^verbatim>\<open>
  def _execute_chunks(cursor, query, rows, batch_size):
      for chunk in _chunked(rows, batch_size):
          cursor.executemany(query, chunk)
  \<close>
\<close>

fun execute_chunks_loop ::
  "'r query \<Rightarrow> 'r list list \<Rightarrow> connection \<Rightarrow> (error + unit) \<times> connection" where
  "execute_chunks_loop query [] c = (Inr (), c)"
| "execute_chunks_loop query (chunk # chunks) c =
     (case executemany query chunk c of
        (Inl e, c') \<Rightarrow> (Inl e, c')
      | (Inr u, c') \<Rightarrow> execute_chunks_loop query chunks c')"

definition execute_chunks ::
  "'r query \<Rightarrow> 'r list \<Rightarrow> int \<Rightarrow> connection \<Rightarrow> (error + unit) \<times> connection" where
  "execute_chunks query rows batch_size c =
     (case chunked rows batch_size of
        Inl e \<Rightarrow> (Inl e, c)
      | Inr chunks \<Rightarrow> execute_chunks_loop query chunks c)"

text \<open>
  Every loader has the same shape: build the tuples, run \<open>_execute_chunks\<close> over all of
  them inside one \<open>with transaction(connection)\<close> block, and return the growth of
  \<open>total_changes\<close>.
  \<^verbatim>\<open>
      before = connection.total_changes
      rows = [...]
      with transaction(connection) as cursor:
          _execute_chunks(cursor, '<statement>', rows, batch_size)
      inserted = connection.total_changes - before
      return inserted
  \<close>
\<close>

definition run_insert ::
  "connection \<Rightarrow> 'r query \<Rightarrow> 'r list \<Rightarrow> int \<Rightarrow> (error + nat) \<times> connection" where
  "run_insert c query rows batch_size =
     (let before = total_changes c in
      case transaction c (execute_chunks query rows batch_size) of
        (Inl e, c') \<Rightarrow> (Inl e, c')
      | (Inr u, c') \<Rightarrow> (Inr (total_changes c' - before), c'))"

record movie_rec =
  mv_movieId :: int
  mv_cleanTitle :: string
  mv_year :: "int option"
  mv_imdbId :: "string option"

definition insert_movies :: "connection \<Rightarrow> movie_rec list \<Rightarrow> int \<Rightarrow> (error + nat) \<times> connection" where
  "insert_movies c movies_df batch_size =
     run_insert c sql_insert_movie
       (map (\<lambda>movie. (mv_movieId movie, mv_cleanTitle movie, mv_year movie, mv_imdbId movie))
          movies_df)
       batch_size"





text \<open>
  A validated rating carries its time as an instant; the loader stores
  \<open>int(row['timestamp'].timestamp())\<close>. The conversion of an instant to whole seconds is
  the parameter \<open>seconds_of\<close>.
\<close>

record 'i rating_rec =
  rt_userId :: int
  rt_movieId :: int
  rt_rating :: rat
  rt_timestamp :: 'i

definition insert_ratings ::
  "('i \<Rightarrow> int) \<Rightarrow> connection \<Rightarrow> 'i rating_rec list \<Rightarrow> int \<Rightarrow> (error + nat) \<times> connection" where
  "insert_ratings seconds_of c ratings_df batch_size =
     run_insert c sql_insert_rating
       (map (\<lambda>row. (rt_userId row, rt_movieId row, rt_rating row, seconds_of (rt_timestamp row)))
          ratings_df)
       batch_size"


section \<open>api_client.py: the enrichment client\<close>

text \<open>
  A decoded JSON value; a JSON object is a Python \<open>dict\<close>, kept as the list of its items.
  \<open>payload.get(k)\<close> is \<open>map_of payload k\<close>.
\<close>

datatype json =
    JNull
  | JBool bool
  | JNum rat
  | JStr string
  | JArr "json list"
  | JObj "(string \<times> json) list"

type_synonym payload = "(string \<times> json) list"

text \<open>
  What one \<open>session.get(...)\<close>, \<open>raise_for_status()\<close> and \<open>response.json()\<close> give: a
  \<open>requests.RequestException\<close> (timeout, connection error, non-2xx status, body that is
  not JSON) or the decoded body. The network is a function from the number of requests
  sent before and the id asked for to that result.
\<close>

datatype response = RequestException | Body json

type_synonym network = "nat \<Rightarrow> string \<Rightarrow> response"

text \<open>
  The client object: its configuration, the in-memory cache, the contents of the cache
  file, and two logs of its effects, the ids requested from the service and the
  arguments of \<open>time.sleep\<close>, both in order.
\<close>

record client =
  api_key :: string
  rate_limit_delay :: rat
  max_retries :: int
  cache :: "string \<rightharpoonup> payload"
  cache_file :: "string \<rightharpoonup> payload"
  requests :: "string list"
  sleeps :: "rat list"

text \<open>
  \<^verbatim>\<open>
  def __init__(self, api_key=None, rate_limit_delay=..., max_retries=..., cache_file=...):
      if not api_key:
          raise ValueError('OMDb API key is required')
      ...
      self._cache = self._load_cache()
  \<close>
  \<open>_load_cache\<close> returns the decoded file, or the empty dict when the file is missing or
  corrupt; the argument \<open>stored\<close> is \<open>None\<close> in these two cases (a file that is read
  as empty until the first write).
\<close>

definition load_cache :: "(string \<rightharpoonup> payload) option \<Rightarrow> (string \<rightharpoonup> payload)" where
  "load_cache stored = (case stored of Some m \<Rightarrow> m | None \<Rightarrow> Map.empty)"

definition omdb_client ::
  "string \<Rightarrow> rat \<Rightarrow> int \<Rightarrow> (string \<rightharpoonup> payload) option \<Rightarrow> error + client" where
  "omdb_client key delay retries stored =
     (if key = [] then Inl ValueError
      else Inr \<lparr>api_key = key, rate_limit_delay = delay, max_retries = retries,
                cache = load_cache stored,
                cache_file = load_cache stored,
                requests = [], sleeps = []\<rparr>)"

definition persist_cache :: "client \<Rightarrow> client" where
  \<comment> \<open>\<open>self.cache_file.write_text(json.dumps(self._cache, ...))\<close>\<close>
  "persist_cache self = self\<lparr>cache_file := cache self\<rparr>"

definition time_sleep :: "rat \<Rightarrow> client \<Rightarrow> (error + unit) \<times> client" where
  \<comment> \<open>\<open>time.sleep\<close> raises ValueError for a negative length\<close>
  "time_sleep delay self =
     (if delay < 0 then (Inl ValueError, self)
      else (Inr (), self\<lparr>sleeps := sleeps self @ [delay]\<rparr>))"

definition session_get :: "network \<Rightarrow> client \<Rightarrow> string \<Rightarrow> response \<times> client" where
  "session_get net self imdb_id =
     (net (length (requests self)) imdb_id, self\<lparr>requests := requests self @ [imdb_id]\<rparr>)"

text \<open>
  \<^verbatim>\<open>
  def _backoff(self, attempt):
      delay = min(5, 0.5 * 2 ** (attempt - 1))
      time.sleep(delay)
  \<close>
  \<open>2 ** (attempt - 1)\<close> is an exact integer for \<open>attempt \<ge> 1\<close>; the product with the
  float \<open>0.5\<close> converts it to a float, which raises OverflowError from \<open>2 ** 1024\<close> on.
  Below that the product is a power of two and exact, so the delay is a rational.
\<close>

definition backoff_delay :: "int \<Rightarrow> error + rat" where
  "backoff_delay attempt =
     (if 1024 \<le> attempt - 1 then Inl OverflowError
      else Inr (min 5 ((1 / 2) * 2 powi (attempt - 1))))"

definition backoff :: "client \<Rightarrow> int \<Rightarrow> (error + unit) \<times> client" where
  "backoff self attempt =
     (case backoff_delay attempt of
        Inl e \<Rightarrow> (Inl e, self)
      | Inr delay \<Rightarrow> time_sleep delay self)"

text \<open>
  \<^verbatim>\<open>
  def fetch_movie(self, imdb_id):
      if imdb_id in self._cache:
          return self._cache[imdb_id]
      for attempt in range(1, self.max_retries + 1):
          try:
              response = self.session.get(OMDB_BASE_URL, params=..., timeout=10)
              response.raise_for_status()
              payload = response.json()
          except requests.RequestException as exc:
              logger.warning(...)
              self._backoff(attempt)
              continue
          if payload.get('Response') == 'False':
              reason = payload.get('Error', 'unknown error')
              self._cache[imdb_id] = {'Response': 'False', 'Error': reason}
              self._persist_cache()
              return None
          self._cache[imdb_id] = payload
          self._persist_cache()
          time.sleep(self.rate_limit_delay)
          return payload
      logger.error(...)
      return None
  \<close>
  \<open>fetch_attempts\<close> is the \<open>for\<close> loop from the given attempt on. A body that is not a
  JSON object has no \<open>get\<close>: AttributeError, which the loop does not catch.
\<close>

function fetch_attempts ::
  "network \<Rightarrow> client \<Rightarrow> string \<Rightarrow> int \<Rightarrow> (error + payload option) \<times> client" where
  "fetch_attempts net self imdb_id attempt =
     (if max_retries self < attempt then (Inr None, self)
      else
        (case session_get net self imdb_id of
           (RequestException, self1) \<Rightarrow>
             (case backoff self1 attempt of
                (Inl e, self2) \<Rightarrow> (Inl e, self2)
              | (Inr u, self2) \<Rightarrow> fetch_attempts net self2 imdb_id (attempt + 1))
         | (Body (JObj payload), self1) \<Rightarrow>
             (if map_of payload ''Response'' = Some (JStr ''False'') then
                (let reason = (case map_of payload ''Error'' of
                                 None \<Rightarrow> JStr ''unknown error'' | Some v \<Rightarrow> v);
                     self2 = self1\<lparr>cache := (cache self1)(imdb_id \<mapsto>
                                [(''Response'', JStr ''False''), (''Error'', reason)])\<rparr>
                 in (Inr None, persist_cache self2))
              else
                (let self2 = self1\<lparr>cache := (cache self1)(imdb_id \<mapsto> payload)\<rparr>
                 in (case time_sleep (rate_limit_delay self) (persist_cache self2) of
                       (Inl e, self3) \<Rightarrow> (Inl e, self3)
                     | (Inr u, self3) \<Rightarrow> (Inr (Some payload), self3))))
         | (Body other, self1) \<Rightarrow> (Inl AttributeError, self1)))"
  by pat_completeness auto
termination
  by (relation "measure (\<lambda>(net, self, imdb_id, attempt). nat (max_retries self + 1 - attempt))")
     (auto simp: session_get_def backoff_def time_sleep_def split: sum.splits if_splits)

declare fetch_attempts.simps [simp del]

definition fetch_movie ::
  "network \<Rightarrow> client \<Rightarrow> string \<Rightarrow> (error + payload option) \<times> client" where
  "fetch_movie net self imdb_id =
     (case cache self imdb_id of
        Some entry \<Rightarrow> (Inr (Some entry), self)
      | None \<Rightarrow> fetch_attempts net self imdb_id 1)"

text \<open>
  \<^verbatim>\<open>
  def fetch_bulk(self, imdb_ids, limit=None):
      result = {}
      counter = 0
      for imdb_id in imdb_ids:
          if limit is not None and counter >= limit:
              break
          if not imdb_id:
              continue
          payload = self.fetch_movie(imdb_id)
          if payload:
              result[imdb_id] = payload
          counter += 1
      return result
  \<close>
  \<open>if payload\<close> holds for a dict that is not empty.
\<close>

fun fetch_bulk_loop ::
  "network \<Rightarrow> client \<Rightarrow> string list \<Rightarrow> int option \<Rightarrow> int \<Rightarrow> (string \<rightharpoonup> payload)
     \<Rightarrow> (error + (string \<rightharpoonup> payload)) \<times> client" where
  "fetch_bulk_loop net self [] limit counter result = (Inr result, self)"
| "fetch_bulk_loop net self (imdb_id # rest) limit counter result =
     (if (case limit of None \<Rightarrow> False | Some l \<Rightarrow> l \<le> counter) then (Inr result, self)
      else if imdb_id = [] then fetch_bulk_loop net self rest limit counter result
      else
        (case fetch_movie net self imdb_id of
           (Inl e, self1) \<Rightarrow> (Inl e, self1)
         | (Inr payload, self1) \<Rightarrow>
             fetch_bulk_loop net self1 rest limit (counter + 1)
               (case payload of
                  None \<Rightarrow> result
                | Some p \<Rightarrow> if p \<noteq> [] then result(imdb_id \<mapsto> p) else result)))"

definition fetch_bulk ::
  "network \<Rightarrow> client \<Rightarrow> string list \<Rightarrow> int option
     \<Rightarrow> (error + (string \<rightharpoonup> payload)) \<times> client" where
  "fetch_bulk net self imdb_ids limit = fetch_bulk_loop net self imdb_ids limit 0 Map.empty"

section \<open>Strings and table cells\<close>

text \<open>
  A \<open>string\<close> is a list of 8-bit characters; a Python string is modelled by the list of
  its code points, for code points below 256. \<open>is_space\<close> is \<open>str.isspace\<close> and the
  class \<open>\s\<close> of \<open>re\<close> on that range; \<open>is_digit\<close> is the class \<open>\d\<close> there.
\<close>

definition is_space :: "char \<Rightarrow> bool" where
  "is_space c \<longleftrightarrow>
     c \<in> set [CHR 0x09, CHR 0x0A, CHR 0x0B, CHR 0x0C, CHR 0x0D, CHR 0x1C, CHR 0x1D,
              CHR 0x1E, CHR 0x1F, CHR 0x20, CHR 0x85, CHR 0xA0]"

definition is_digit :: "char \<Rightarrow> bool" where
  "is_digit c \<longleftrightarrow> c \<in> set ''0123456789''"

definition lstrip :: "string \<Rightarrow> string" where
  "lstrip s = dropWhile is_space s"

definition rstrip :: "string \<Rightarrow> string" where
  "rstrip s = rev (dropWhile is_space (rev s))"

definition strip :: "string \<Rightarrow> string" where
  "strip s = lstrip (rstrip s)"

definition digit_value :: "char \<Rightarrow> nat" where
  "digit_value c = of_char c - 48"

definition int_of_digits :: "string \<Rightarrow> nat" where
  \<comment> \<open>\<open>int(s)\<close> for a string of decimal digits\<close>
  "int_of_digits s = fold (\<lambda>c n. 10 * n + digit_value c) s 0"

definition digit_char :: "nat \<Rightarrow> char" where
  "digit_char k = ''0123456789'' ! k"

fun str_nat :: "nat \<Rightarrow> string" where
  "str_nat n = (if n < 10 then [digit_char n] else str_nat (n div 10) @ [digit_char (n mod 10)])"

declare str_nat.simps [simp del]

definition str_int :: "int \<Rightarrow> string" where
  \<comment> \<open>\<open>str(i)\<close> for an integer\<close>
  "str_int i = (if i < 0 then CHR ''-'' # str_nat (nat (- i)) else str_nat (nat i))"

definition zfill :: "nat \<Rightarrow> string \<Rightarrow> string" where
  \<comment> \<open>\<open>s.zfill(width)\<close>: zeros go after a leading sign; a string of the width or longer is kept\<close>
  "zfill width s =
     (if width \<le> length s then s
      else
        (case s of
           c # cs \<Rightarrow>
             if c = CHR ''+'' \<or> c = CHR ''-''
             then c # replicate (width - length s) CHR ''0'' @ cs
             else replicate (width - length s) CHR ''0'' @ s
         | [] \<Rightarrow> replicate width CHR ''0''))"

text \<open>
  The values a table holds. A number is a float: not-a-number, an infinity (\<open>Inf True\<close>
  is the positive one) or a finite value; an integer cell is the finite number with its
  value. \<open>pd.isna\<close> holds for \<open>None\<close> and for not-a-number.
\<close>

datatype number = NaN | Inf bool | Fin rat

datatype cell = PyNone | Number number | Str string

definition isna :: "cell \<Rightarrow> bool" where
  "isna c \<longleftrightarrow> c = PyNone \<or> c = Number NaN"

definition trunc :: "rat \<Rightarrow> int" where
  \<comment> \<open>\<open>int(x)\<close> for a finite float: towards zero\<close>
  "trunc x = (if 0 \<le> x then \<lfloor>x\<rfloor> else \<lceil>x\<rceil>)"

section \<open>extract.py\<close>

text \<open>
  \<^verbatim>\<open>
  def _extract_year(title):
      if not isinstance(title, str):
          return None
      match = re.search(r'\((\d{4})\)\s*$', title.strip())
      if match:
          try:
              return int(match.group(1))
          except ValueError:
              return None
      return None
  \<close>
  \<open>year_at s\<close> is the match of the pattern at the start of \<open>s\<close>, with its group: an
  opening parenthesis, four digits, a closing parenthesis, and then whitespace up to
  the end (\<open>\s*\<close> is greedy and \<open>$\<close> holds at the end, also before a final
  newline, which is whitespace). \<open>re.search\<close> takes the leftmost position that matches.
\<close>

fun year_at :: "string \<Rightarrow> string option" where
  "year_at (p # a # b # c # d # q # rest) =
     (if p = CHR ''('' \<and> is_digit a \<and> is_digit b \<and> is_digit c \<and> is_digit d
         \<and> q = CHR '')'' \<and> list_all is_space rest
      then Some [a, b, c, d] else None)"
| "year_at s = None"

fun search_year :: "string \<Rightarrow> string option" where
  "search_year [] = None"
| "search_year (c # cs) =
     (case year_at (c # cs) of Some g \<Rightarrow> Some g | None \<Rightarrow> search_year cs)"

definition extract_year :: "cell \<Rightarrow> nat option" where
  "extract_year title =
     (case title of
        Str s \<Rightarrow> map_option int_of_digits (search_year (strip s))
      | other \<Rightarrow> None)"

text \<open>
  \<^verbatim>\<open>
  def _format_imdb_id(imdb_id):
      if pd.isna(imdb_id):
          return None
      imdb_str = str(int(imdb_id)) if isinstance(imdb_id, float) else str(imdb_id)
      if not imdb_str:
          return None
      imdb_str = imdb_str.zfill(7)
      return f'tt{imdb_str}'
  \<close>
  \<open>int\<close> of an infinite float raises OverflowError. For an integer cell \<open>str\<close> gives the
  same decimal string as \<open>str(int(...))\<close> gives for the float of that value.
\<close>

definition imdb_tag :: "string \<Rightarrow> string option" where
  "imdb_tag imdb_str = (if imdb_str = [] then None else Some (''tt'' @ zfill 7 imdb_str))"

definition format_imdb_id :: "cell \<Rightarrow> error + string option" where
  "format_imdb_id imdb_id =
     (if isna imdb_id then Inr None
      else
        (case imdb_id of
           Number (Fin x) \<Rightarrow> Inr (imdb_tag (str_int (trunc x)))
         | Number other \<Rightarrow> Inl OverflowError
         | Str s \<Rightarrow> Inr (imdb_tag s)
         | PyNone \<Rightarrow> Inr None))"

subsection \<open>Tables\<close>

text \<open>
  A \<open>pandas.DataFrame\<close> by value: the column labels, and the rows in order, each row
  the list of its labelled cells. Cells are compared by value; where pandas looks at
  the type of a column, the type is read off the cells of the column. \<open>pd.DataFrame()\<close> has no columns and no rows. An access by a label
  that the table does not have raises KeyError.
\<close>

record 'c dataframe =
  df_columns :: "string list"
  df_rows :: "(string \<times> 'c) list list"

definition empty_frame :: "'c dataframe" where
  "empty_frame = \<lparr>df_columns = [], df_rows = []\<rparr>"

definition and_then :: "error + 'a \<Rightarrow> ('a \<Rightarrow> error + 'b) \<Rightarrow> error + 'b" where
  "and_then r f = (case r of Inl e \<Rightarrow> Inl e | Inr v \<Rightarrow> f v)"

fun try_map :: "('a \<Rightarrow> error + 'b) \<Rightarrow> 'a list \<Rightarrow> error + 'b list" where
  "try_map f [] = Inr []"
| "try_map f (x # xs) =
     (case f x of
        Inl e \<Rightarrow> Inl e
      | Inr y \<Rightarrow> (case try_map f xs of Inl e \<Rightarrow> Inl e | Inr ys \<Rightarrow> Inr (y # ys)))"

definition row_get :: "(string \<times> 'c) list \<Rightarrow> string \<Rightarrow> error + 'c" where
  "row_get r label = (case map_of r label of None \<Rightarrow> Inl KeyError | Some v \<Rightarrow> Inr v)"

fun row_set :: "(string \<times> 'c) list \<Rightarrow> string \<Rightarrow> 'c \<Rightarrow> (string \<times> 'c) list" where
  "row_set [] label v = [(label, v)]"
| "row_set ((k, x) # r) label v =
     (if k = label then (k, v) # r else (k, x) # row_set r label v)"

definition column :: "'c dataframe \<Rightarrow> string \<Rightarrow> error + 'c list" where
  \<comment> \<open>\<open>df[label]\<close>\<close>
  "column df label =
     (if label \<notin> set (df_columns df) then Inl KeyError
      else try_map (\<lambda>r. row_get r label) (df_rows df))"

definition select_columns :: "'c dataframe \<Rightarrow> string list \<Rightarrow> error + 'c dataframe" where
  \<comment> \<open>\<open>df[[label, ...]]\<close>\<close>
  "select_columns df labels =
     (if \<not> set labels \<subseteq> set (df_columns df) then Inl KeyError
      else
        and_then
          (try_map (\<lambda>r. try_map (\<lambda>l. and_then (row_get r l) (\<lambda>v. Inr (l, v))) labels)
             (df_rows df))
          (\<lambda>rs. Inr \<lparr>df_columns = labels, df_rows = rs\<rparr>))"

definition assign_column :: "'c dataframe \<Rightarrow> string \<Rightarrow> 'c list \<Rightarrow> 'c dataframe" where
  \<comment> \<open>\<open>df[label] = values\<close>, one value per row\<close>
  "assign_column df label vals =
     \<lparr>df_columns = (if label \<in> set (df_columns df) then df_columns df
                     else df_columns df @ [label]),
      df_rows = map (\<lambda>(r, v). row_set r label v) (zip (df_rows df) vals)\<rparr>"

text \<open>
  The type of a column is read off its cells, as \<open>pd.read_csv\<close> produces them: a
  column in which some cell is a string is an \<open>object\<close> column (strings, and
  not-a-number for the missing values), a column with numbers only is numeric.
\<close>

definition object_dtype :: "cell list \<Rightarrow> bool" where
  "object_dtype cells = list_ex (\<lambda>v. case v of Str s \<Rightarrow> True | _ \<Rightarrow> False) cells"

text \<open>
  \<open>left.merge(right, on=key, how='left', validate='one_to_one')\<close>: KeyError when a side
  lacks the key column; ValueError (\<open>You are trying to merge on int64 and object
  columns\<close>) when both key columns have values and one of them is numeric and the other
  an \<open>object\<close> column of strings, which pandas checks before the uniqueness;
  MergeError when the key values of a side are not unique; else
  every left row, in order, extended by the other cells of the right row with the same
  key, or by not-a-number when there is none. A label other than the key that both
  sides have gets the suffix \<open>_x\<close> on the left and \<open>_y\<close> on the right.
\<close>

definition merge_left_one_to_one ::
  "cell dataframe \<Rightarrow> cell dataframe \<Rightarrow> string \<Rightarrow> error + cell dataframe" where
  "merge_left_one_to_one left right key =
     and_then (column left key) (\<lambda>left_keys.
     and_then (column right key) (\<lambda>right_keys.
       if left_keys \<noteq> [] \<and> right_keys \<noteq> []
          \<and> object_dtype left_keys \<noteq> object_dtype right_keys then Inl ValueError
       else if \<not> distinct left_keys \<or> \<not> distinct right_keys then Inl MergeError
       else
         (let both = filter (\<lambda>l. l \<noteq> key \<and> l \<in> set (df_columns right)) (df_columns left);
              lname = (\<lambda>l. if l \<in> set both then l @ ''_x'' else l);
              rname = (\<lambda>l. if l \<in> set both then l @ ''_y'' else l);
              others = filter (\<lambda>l. l \<noteq> key) (df_columns right)
          in Inr \<lparr>df_columns = map lname (df_columns left) @ map rname others,
                   df_rows = map (\<lambda>r.
                     map (\<lambda>(l, v). (lname l, v)) r
                     @ (case find (\<lambda>r'. map_of r' key = map_of r key) (df_rows right) of
                          Some r' \<Rightarrow> map (\<lambda>(l, v). (rname l, v)) (filter (\<lambda>(l, v). l \<noteq> key) r')
                        | None \<Rightarrow> map (\<lambda>l. (rname l, Number NaN)) others))
                     (df_rows left)\<rparr>)))"

subsection \<open>Reading and joining the sources\<close>

text \<open>
  \<^verbatim>\<open>
  def _read_csv(path, **read_kwargs):
      try:
          return pd.read_csv(path, **read_kwargs)
      except FileNotFoundError:
          logger.error('CSV file not found: %s', path)
          return pd.DataFrame()
  \<close>
  The file system gives, for a path, no file, a file that \<open>pd.read_csv\<close> cannot parse,
  or the table read from the file.
\<close>

datatype csv_file = NoFile | BadFile | CsvFile "cell dataframe"

definition read_csv :: "(string \<Rightarrow> csv_file) \<Rightarrow> string \<Rightarrow> error + cell dataframe" where
  "read_csv fs path =
     (case fs path of
        NoFile \<Rightarrow> Inr empty_frame
      | BadFile \<Rightarrow> Inl ParserError
      | CsvFile df \<Rightarrow> Inr df)"

definition MOVIES_CSV :: string where "MOVIES_CSV = ''movies.csv''"
definition RATINGS_CSV :: string where "RATINGS_CSV = ''ratings.csv''"
definition LINKS_CSV :: string where "LINKS_CSV = ''links.csv''"

text \<open>
  \<^verbatim>\<open>
  def extract_csv_data():
      movies = _read_csv(MOVIES_CSV)
      ratings = _read_csv(RATINGS_CSV)
      links = _read_csv(LINKS_CSV)
      if movies.empty or links.empty:
          logger.warning(...)
      movie_link = movies.merge(links[['movieId', 'imdbId']], on='movieId',
                                how='left', validate='one_to_one')
      movie_link['year'] = movie_link['title'].apply(_extract_year)
      ...
      movie_link['imdbId'] = movie_link['imdbId'].apply(_format_imdb_id)
      ...
      return {'movies': movie_link, 'ratings': ratings}
  \<close>
  The result is the pair of the two tables; the log lines are not modelled.
\<close>

definition extract_csv_data ::
  "(string \<Rightarrow> csv_file) \<Rightarrow> error + cell dataframe \<times> cell dataframe" where
  "extract_csv_data fs =
     and_then (read_csv fs MOVIES_CSV) (\<lambda>movies_df.
     and_then (read_csv fs RATINGS_CSV) (\<lambda>ratings_df.
     and_then (read_csv fs LINKS_CSV) (\<lambda>links.
     and_then (select_columns links [''movieId'', ''imdbId'']) (\<lambda>links_sel.
     and_then (merge_left_one_to_one movies_df links_sel ''movieId'') (\<lambda>movie_link.
     and_then (column movie_link ''title'') (\<lambda>titles.
       (let movie_link1 = assign_column movie_link ''year''
              (map (\<lambda>t. case extract_year t of
                            None \<Rightarrow> PyNone | Some y \<Rightarrow> Number (Fin (of_nat y))) titles)
        in
     and_then (column movie_link1 ''imdbId'') (\<lambda>ids.
     and_then (try_map format_imdb_id ids) (\<lambda>formatted.
       Inr (assign_column movie_link1 ''imdbId''
              (map (\<lambda>f. case f of None \<Rightarrow> PyNone | Some s \<Rightarrow> Str s) formatted),
            ratings_df))))))))))"

section \<open>transform.py\<close>

text \<open>
  \<^verbatim>\<open>
  def _clean_title(title):
      if not isinstance(title, str):
          return ''
      normalized = re.sub(r'\s*\(\d{4}\)\s*$', '', title).strip()
      return re.sub(r'\s{2,}', ' ', normalized)
  \<close>
  \<open>sub_year_suffix\<close> is the first substitution. The pattern matches at a position when,
  after the whitespace there (\<open>\s*\<close> is greedy and the next character must be the
  parenthesis), \<open>year_at\<close> matches; a match runs to the end of the string, so the
  leftmost match is the only one and the result is the text before it.
  \<open>collapse_spaces\<close> is the second substitution: each maximal run of two or more
  whitespace characters becomes one space.
\<close>

fun sub_year_suffix :: "string \<Rightarrow> string" where
  "sub_year_suffix [] = []"
| "sub_year_suffix (c # cs) =
     (if year_at (dropWhile is_space (c # cs)) \<noteq> None then []
      else c # sub_year_suffix cs)"

function collapse_spaces :: "string \<Rightarrow> string" where
  "collapse_spaces [] = []"
| "collapse_spaces [c] = [c]"
| "collapse_spaces (c # d # cs) =
     (if is_space c \<and> is_space d then CHR '' '' # collapse_spaces (dropWhile is_space cs)
      else c # collapse_spaces (d # cs))"
  by pat_completeness auto
termination
  by (relation "measure length") (auto simp: length_dropWhile_le less_Suc_eq_le le_SucI)

definition clean_title :: "cell \<Rightarrow> string" where
  "clean_title title =
     (case title of
        Str s \<Rightarrow> collapse_spaces (strip (sub_year_suffix s))
      | other \<Rightarrow> [])"

text \<open>
  \<^verbatim>\<open>
  def _validate_ratings_dataframe(ratings):
      original_count = len(ratings)
      ratings = ratings.drop_duplicates(subset=['userId', 'movieId', 'timestamp'])
      ratings['rating'] = pd.to_numeric(ratings['rating'], errors='coerce')
      ratings = ratings[(ratings['rating'] >= 0.5) & (ratings['rating'] <= 5.0)]
      ratings['timestamp'] = pd.to_numeric(ratings['timestamp'], errors='coerce')
      ratings = ratings.dropna(subset=['rating', 'timestamp'])
      ratings['timestamp'] = pd.to_datetime(ratings['timestamp'], unit='s',
                                            origin='unix', errors='coerce')
      ratings = ratings.dropna(subset=['timestamp'])
      ...
      return ratings
  \<close>
  \<open>pd.to_numeric(..., errors='coerce')\<close> keeps a number, reads a string as a number and
  gives not-a-number for what it cannot read; how a string is read is the parameter
  \<open>parse\<close>. \<open>pd.to_datetime(..., unit='s', errors='coerce')\<close> turns seconds since the
  epoch into an instant, in nanoseconds, or into \<open>NaT\<close> where that fails; the conversion
  of a finite number is the parameter \<open>to_ns\<close>. A comparison with not-a-number is false.
\<close>

datatype tcell = Cell cell | Timestamp int | NaT

definition to_numeric :: "(string \<Rightarrow> number) \<Rightarrow> cell \<Rightarrow> number" where
  "to_numeric parse c =
     (case c of PyNone \<Rightarrow> NaN | Number n \<Rightarrow> n | Str s \<Rightarrow> parse s)"

definition to_datetime :: "(rat \<Rightarrow> int option) \<Rightarrow> cell \<Rightarrow> tcell" where
  "to_datetime to_ns c =
     (case c of
        Number (Fin x) \<Rightarrow> (case to_ns x of None \<Rightarrow> NaT | Some t \<Rightarrow> Timestamp t)
      | other \<Rightarrow> NaT)"

definition number_ge :: "number \<Rightarrow> rat \<Rightarrow> bool" where
  "number_ge n y = (case n of NaN \<Rightarrow> False | Inf positive \<Rightarrow> positive | Fin x \<Rightarrow> y \<le> x)"

definition number_le :: "number \<Rightarrow> rat \<Rightarrow> bool" where
  "number_le n y = (case n of NaN \<Rightarrow> False | Inf positive \<Rightarrow> \<not> positive | Fin x \<Rightarrow> x \<le> y)"

text \<open>
  \<open>drop_duplicates(subset=...)\<close> keeps the first row of every key; \<open>seen\<close> are the keys of
  the rows kept so far.
\<close>

fun keep_first :: "('r \<Rightarrow> 'k) \<Rightarrow> 'k list \<Rightarrow> 'r list \<Rightarrow> 'r list" where
  "keep_first key seen [] = []"
| "keep_first key seen (r # rs) =
     (if key r \<in> set seen then keep_first key seen rs
      else r # keep_first key (key r # seen) rs)"

definition drop_duplicates :: "'c dataframe \<Rightarrow> string list \<Rightarrow> error + 'c dataframe" where
  "drop_duplicates df labels =
     (if \<not> set labels \<subseteq> set (df_columns df) then Inl KeyError
      else Inr (df\<lparr>df_rows := keep_first (\<lambda>r. map (map_of r) labels) [] (df_rows df)\<rparr>))"

definition filter_rows :: "((string \<times> 'c) list \<Rightarrow> bool) \<Rightarrow> 'c dataframe \<Rightarrow> 'c dataframe" where
  "filter_rows keep df = df\<lparr>df_rows := filter keep (df_rows df)\<rparr>"

definition validate_ratings_dataframe ::
  "(string \<Rightarrow> number) \<Rightarrow> (rat \<Rightarrow> int option) \<Rightarrow> cell dataframe \<Rightarrow> error + tcell dataframe" where
  "validate_ratings_dataframe parse to_ns ratings_df =
     and_then (drop_duplicates ratings_df [''userId'', ''movieId'', ''timestamp'']) (\<lambda>df1.
     and_then (column df1 ''rating'') (\<lambda>scores.
       (let df2 = assign_column df1 ''rating'' (map (\<lambda>c. Number (to_numeric parse c)) scores);
            df3 = filter_rows (\<lambda>r. case map_of r ''rating'' of
                                   Some (Number n) \<Rightarrow> number_ge n (1 / 2) \<and> number_le n 5
                                 | other \<Rightarrow> False) df2
        in
     and_then (column df3 ''timestamp'') (\<lambda>times.
       (let df4 = assign_column df3 ''timestamp'' (map (\<lambda>c. Number (to_numeric parse c)) times);
            df5 = filter_rows (\<lambda>r. case (map_of r ''rating'', map_of r ''timestamp'') of
                                   (Some a, Some b) \<Rightarrow> \<not> isna a \<and> \<not> isna b
                                 | other \<Rightarrow> False) df4
        in
     and_then (column df5 ''timestamp'') (\<lambda>seconds.
       (let df6 = assign_column
                    \<lparr>df_columns = df_columns df5,
                     df_rows = map (map (\<lambda>(l, v). (l, Cell v))) (df_rows df5)\<rparr>
                    ''timestamp'' (map (to_datetime to_ns) seconds)
        in Inr (filter_rows (\<lambda>r. case map_of r ''timestamp'' of
                                   Some (Timestamp t) \<Rightarrow> True
                                 | other \<Rightarrow> False) df6))))))))"

text \<open>
  A sample of the two library conversions, for running the validation: decimal numerals
  \<open>123\<close> and \<open>123.45\<close> are read as their value (every other string is left unread
  here), and whole nanoseconds within 64 bits are an instant.
\<close>

definition parse_decimal :: "string \<Rightarrow> number" where
  "parse_decimal s =
     (let whole = takeWhile is_digit s; rest = dropWhile is_digit s in
      if whole = [] then NaN
      else if rest = [] then Fin (of_nat (int_of_digits whole))
      else if hd rest = CHR ''.'' \<and> tl rest \<noteq> [] \<and> list_all is_digit (tl rest)
        then Fin (of_nat (int_of_digits whole)
                  + of_nat (int_of_digits (tl rest)) / 10 ^ length (tl rest))
      else NaN)"

definition seconds_to_ns :: "rat \<Rightarrow> int option" where
  "seconds_to_ns x =
     (let ns = \<lfloor>x * 1000000000\<rfloor> in
      if - (2 ^ 63) < ns \<and> ns < 2 ^ 63 then Some ns else None)"

section \<open>Whitespace normalization, in the words of the specification\<close>

text \<open>
  The three definitions of this section are not translated from the code: they say,
  in the words of the specification, what a whitespace-normalized text is, and the
  claim about the titles compares \<open>clean_title\<close> with them. For a text \<open>m\<close> that neither
  begins nor ends with whitespace, \<open>spec_runs\<close> cuts the text into its maximal runs of
  whitespace characters and of other characters, in order; \<open>spec_squeeze\<close> replaces a
  run of two or more whitespace characters by one space and keeps every other run, a
  single whitespace character included; \<open>spec_normalized\<close> joins the runs again. None
  of them refers to the two regular expressions of \<open>_clean_title\<close> or to \<open>str.strip\<close>.
\<close>

function spec_runs :: "string \<Rightarrow> string list" where
  "spec_runs [] = []"
| "spec_runs (c # cs) =
     (c # takeWhile (\<lambda>d. is_space d = is_space c) cs)
     # spec_runs (dropWhile (\<lambda>d. is_space d = is_space c) cs)"
  by pat_completeness auto
termination
  by (relation "measure length") (auto simp: length_dropWhile_le less_Suc_eq_le)

definition spec_squeeze :: "string \<Rightarrow> string" where
  "spec_squeeze run = (if list_all is_space run \<and> 2 \<le> length run then '' '' else run)"

definition spec_normalized :: "string \<Rightarrow> string" where
  "spec_normalized m = concat (map spec_squeeze (spec_runs m))"

section \<open>Sample data\<close>

text \<open>
  The movie of the end-to-end scenario of the specification, as the loaders receive it
  and as the store holds it, and a client of the enrichment service with an empty
  cache. They serve to run the definitions on concrete inputs.
\<close>

definition toy_story :: movie_rec where
  "toy_story = \<lparr>mv_movieId = 1, mv_cleanTitle = ''Toy Story'', mv_year = Some 1995,
                 mv_imdbId = Some ''tt0114709''\<rparr>"

definition toy_story_row :: movie_row where
  "toy_story_row = (1, ''Toy Story'', Some 1995, Some ''tt0114709'')"






definition sample_client :: "int \<Rightarrow> client" where
  "sample_client retries =
     \<lparr>api_key = ''key'', rate_limit_delay = 1 / 4, max_retries = retries,
      cache = Map.empty, cache_file = Map.empty, requests = [], sleeps = []\<rparr>"

definition not_found :: payload where
  "not_found = [(''Response'', JStr ''False''), (''Error'', JStr ''Movie not found!'')]"

definition found :: payload where
  "found = [(''Title'', JStr ''Toy Story''), (''Response'', JStr ''True'')]"

definition failing_then :: "nat \<Rightarrow> payload \<Rightarrow> network" where
  \<comment> \<open>the first \<open>n\<close> requests fail in transport, every later one is answered with the payload\<close>
  "failing_then n p = (\<lambda>k i. if k < n then RequestException else Body (JObj p))"

section \<open>Properties of the chunking\<close>

lemma chunked_loop_concat: "0 < sz \<Longrightarrow> concat (chunked_loop it sz) = it"
proof (induction it sz rule: chunked_loop.induct)
  case (1 it sz)
  show ?case
  proof (cases "take sz it = []")
    case True
    with "1.prems" have "it = []" by simp
    with True show ?thesis by (simp add: chunked_loop.simps)
  next
    case False
    with "1" have "concat (chunked_loop (drop sz it) sz) = drop sz it" by simp
    with False show ?thesis by (subst chunked_loop.simps) simp
  qed
qed

lemma chunked_loop_bounds:
  "c \<in> set (chunked_loop it sz) \<Longrightarrow> c \<noteq> [] \<and> length c \<le> sz"
proof (induction it sz rule: chunked_loop.induct)
  case (1 it sz)
  show ?case
  proof (cases "take sz it = []")
    case True
    with "1.prems" show ?thesis by (simp add: chunked_loop.simps)
  next
    case False
    from "1.prems" False
    have "c = take sz it \<or> c \<in> set (chunked_loop (drop sz it) sz)"
      by (subst (asm) chunked_loop.simps) simp
    then show ?thesis
    proof
      assume "c = take sz it"
      with False show ?thesis by simp
    next
      assume "c \<in> set (chunked_loop (drop sz it) sz)"
      with "1.IH" False show ?thesis by simp
    qed
  qed
qed

lemma chunked_loop_full:
  "Suc i < length (chunked_loop it sz) \<Longrightarrow> length (chunked_loop it sz ! i) = sz"
proof (induction it sz arbitrary: i rule: chunked_loop.induct)
  case (1 it sz)
  show ?case
  proof (cases "take sz it = []")
    case True
    with "1.prems" show ?thesis by (simp add: chunked_loop.simps)
  next
    case False
    have unfold: "chunked_loop it sz = take sz it # chunked_loop (drop sz it) sz"
      using False by (subst chunked_loop.simps) simp
    show ?thesis
    proof (cases i)
      case 0
      from "1.prems" unfold have "chunked_loop (drop sz it) sz \<noteq> []" by auto
      then have "take sz (drop sz it) \<noteq> []"
        by (auto simp: chunked_loop.simps [of "drop sz it" sz] split: if_splits)
      then have "sz < length it" by (cases "sz < length it") auto
      with 0 unfold show ?thesis by simp
    next
      case (Suc j)
      with "1.prems" unfold have "Suc j < length (chunked_loop (drop sz it) sz)" by simp
      with "1.IH" [OF False] have "length (chunked_loop (drop sz it) sz ! j) = sz" by simp
      with Suc unfold show ?thesis by simp
    qed
  qed
qed

lemma chunked_ok:
  assumes "1 \<le> b" and "b \<le> sys_maxsize"
  shows "\<exists>cs. chunked rows b = Inr cs
           \<and> (\<forall>c \<in> set cs. c \<noteq> [] \<and> int (length c) \<le> b)
           \<and> (\<forall>i. Suc i < length cs \<longrightarrow> int (length (cs ! i)) = b)
           \<and> concat cs = rows"
proof -
  from assms have pos: "0 < nat b" by simp
  have "chunked rows b = Inr (chunked_loop rows (nat b))"
    using assms by (simp add: chunked_def)
  moreover have "\<forall>c \<in> set (chunked_loop rows (nat b)). c \<noteq> [] \<and> int (length c) \<le> b"
  proof
    fix c assume "c \<in> set (chunked_loop rows (nat b))"
    then have "c \<noteq> [] \<and> length c \<le> nat b" by (rule chunked_loop_bounds)
    with pos show "c \<noteq> [] \<and> int (length c) \<le> b" by auto
  qed
  moreover have "\<forall>i. Suc i < length (chunked_loop rows (nat b))
                   \<longrightarrow> int (length (chunked_loop rows (nat b) ! i)) = b"
    using pos by (auto simp: chunked_loop_full)
  moreover have "concat (chunked_loop rows (nat b)) = rows"
    using pos by (rule chunked_loop_concat)
  ultimately show ?thesis by blast
qed

lemma chunked_out_of_range:
  "b < 0 \<or> sys_maxsize < b \<Longrightarrow> chunked rows b = Inl ValueError"
  by (simp add: chunked_def)

text \<open>
  C10 (as amended). For every finite sequence of rows and every batch size \<open>b\<close> with
  \<open>1 \<le> b \<le> sys.maxsize\<close>, the chunking utility returns only non-empty chunks, each of
  length at most \<open>b\<close> and all but the last of length exactly \<open>b\<close>, whose in-order
  concatenation is the input sequence: every row is submitted exactly once, in the input
  order. For a larger \<open>b\<close> the utility raises ValueError and returns no chunk.
\<close>

theorem chunked_partitions_input:
  assumes "1 \<le> b" and "b \<le> sys_maxsize"
  shows "\<exists>cs. chunked rows b = Inr cs
           \<and> (\<forall>c \<in> set cs. c \<noteq> [] \<and> int (length c) \<le> b)
           \<and> (\<forall>i. Suc i < length cs \<longrightarrow> int (length (cs ! i)) = b)
           \<and> concat cs = rows"
  using assms by (rule chunked_ok)

theorem chunked_partitions_input_witness:
  "(1::int) \<le> 2 \<and> (2::int) \<le> sys_maxsize
   \<and> chunked [10, 20, 30, 40, 50 :: nat] 2 = Inr [[10, 20], [30, 40], [50]]
   \<and> concat [[10, 20], [30, 40], [50 :: nat]] = [10, 20, 30, 40, 50]"
proof -
  have h: "(1::int) \<le> 2" by simp
  have m: "(2::int) \<le> sys_maxsize" by (simp add: sys_maxsize_def)
  have e: "chunked [10, 20, 30, 40, 50 :: nat] 2 = Inr [[10, 20], [30, 40], [50]]"
    by (simp add: chunked_def chunked_loop.simps sys_maxsize_def)
  from chunked_partitions_input [OF h m, of "[10, 20, 30, 40, 50 :: nat]"] e
  have "concat [[10, 20], [30, 40], [50 :: nat]] = [10, 20, 30, 40, 50]" by auto
  with h m e show ?thesis by blast
qed

text \<open>
  C10 as stated fails: the batch size \<open>2 ** 63\<close> is at least 1, and \<open>islice\<close> refuses
  it, so the utility raises instead of returning the one chunk.
\<close>

theorem chunked_beyond_maxsize_counterexample:
  "(1::int) \<le> 2 ^ 63 \<and> chunked [1 :: nat] (2 ^ 63) = Inl ValueError"
  by (simp add: chunked_def sys_maxsize_def)

section \<open>Properties of the loaders\<close>


lemma executemany_committed: "committed (snd (executemany q rs c)) = committed c"
  by (induction rs arbitrary: c) (auto split: sum.splits prod.splits)

lemma executemany_append:
  "executemany q (xs @ ys) c =
     (case executemany q xs c of
        (Inl e, c') \<Rightarrow> (Inl e, c')
      | (Inr u, c') \<Rightarrow> executemany q ys c')"
  by (induction xs arbitrary: c) (auto split: sum.splits prod.splits)

lemma execute_chunks_loop_concat:
  "execute_chunks_loop q chunks c = executemany q (concat chunks) c"
  by (induction chunks arbitrary: c) (auto simp: executemany_append split: sum.splits prod.splits)


lemma execute_chunks_rows:
  "1 \<le> b \<Longrightarrow> b \<le> sys_maxsize \<Longrightarrow> execute_chunks q rows b c = executemany q rows c"
  by (simp add: execute_chunks_def chunked_def execute_chunks_loop_concat chunked_loop_concat)

lemma run_insert_one_transaction:
  assumes "1 \<le> b" and "b \<le> sys_maxsize"
  shows "run_insert c q rows b =
     (case executemany q rows c of
        (Inl e, c1) \<Rightarrow> (Inl e, c1\<lparr>pending := committed c\<rparr>)
      | (Inr u, c1) \<Rightarrow> (Inr (total_changes c1 - total_changes c), c1\<lparr>committed := pending c1\<rparr>))"
proof -
  obtain res c1 where e: "executemany q rows c = (res, c1)" by (cases "executemany q rows c")
  have cm: "committed c1 = committed c" using executemany_committed [of q rows c] e by simp
  show ?thesis
    using assms e cm
    by (cases res) (simp_all add: run_insert_def transaction_def execute_chunks_rows
        commit_def rollback_def)
qed

lemma run_insert_out_of_range:
  "b < 0 \<or> sys_maxsize < b \<Longrightarrow>
     run_insert c q rows b = (Inl ValueError, c\<lparr>pending := committed c\<rparr>)"
  by (simp add: run_insert_def transaction_def execute_chunks_def chunked_def rollback_def)





































section \<open>Claims about the loaders\<close>

text \<open>
  C1 (as amended). For every record set and every batch size \<open>b\<close> with
  \<open>1 \<le> b \<le> sys.maxsize\<close> the loader submits the rows in consecutive fixed-size batches,
  in order: every batch is non-empty and has at most \<open>b\<close> rows, and every batch but the
  last has exactly \<open>b\<close> rows. All batches of the load run inside one transaction: the
  load behaves as one \<open>executemany\<close> over all rows. If every statement succeeds, all rows
  are committed together; if any statement fails, the exception is raised and the
  connection is rolled back to the contents committed before the load, so no row of the
  failing batch lands and neither does any row of an earlier batch of the same load. The
  committed contents do not change while the batches run. (All five loaders are
  \<open>run_insert\<close> with their statement.)
\<close>

theorem load_runs_in_one_transaction:
  assumes "1 \<le> b" and "b \<le> sys_maxsize"
  shows "(\<exists>chunks. chunked rows b = Inr chunks
            \<and> (\<forall>chunk \<in> set chunks. chunk \<noteq> [] \<and> int (length chunk) \<le> b)
            \<and> (\<forall>i. Suc i < length chunks \<longrightarrow> int (length (chunks ! i)) = b)
            \<and> concat chunks = rows
            \<and> execute_chunks q rows b c = execute_chunks_loop q chunks c)
       \<and> run_insert c q rows b =
           (case executemany q rows c of
              (Inl e, c1) \<Rightarrow> (Inl e, c1\<lparr>pending := committed c\<rparr>)
            | (Inr u, c1) \<Rightarrow>
                (Inr (total_changes c1 - total_changes c), c1\<lparr>committed := pending c1\<rparr>))
       \<and> committed (snd (executemany q rows c)) = committed c"
proof -
  from chunked_ok [OF assms, of rows]
  obtain chunks where ch: "chunked rows b = Inr chunks"
    and bd: "\<forall>chunk \<in> set chunks. chunk \<noteq> [] \<and> int (length chunk) \<le> b"
    and full: "\<forall>i. Suc i < length chunks \<longrightarrow> int (length (chunks ! i)) = b"
    and cc: "concat chunks = rows" by blast
  have "execute_chunks q rows b c = execute_chunks_loop q chunks c"
    using ch by (simp add: execute_chunks_def)
  with ch bd full cc
  have first: "\<exists>chunks. chunked rows b = Inr chunks
            \<and> (\<forall>chunk \<in> set chunks. chunk \<noteq> [] \<and> int (length chunk) \<le> b)
            \<and> (\<forall>i. Suc i < length chunks \<longrightarrow> int (length (chunks ! i)) = b)
            \<and> concat chunks = rows
            \<and> execute_chunks q rows b c = execute_chunks_loop q chunks c"
    by blast
  from first run_insert_one_transaction [OF assms, of c q rows]
    executemany_committed [of q rows c]
  show ?thesis by (intro conjI)
qed

theorem load_runs_in_one_transaction_witness:
  "(1::int) \<le> 2 \<and> (2::int) \<le> sys_maxsize
   \<and> run_insert fresh_connection sql_insert_genre [''Adventure'', ''Animation'', ''Children''] 2
     = (Inr 3,
        \<lparr>committed = empty_store\<lparr>genres :=
                       [(1, ''Adventure''), (2, ''Animation''), (3, ''Children'')]\<rparr>,
         pending = empty_store\<lparr>genres :=
                       [(1, ''Adventure''), (2, ''Animation''), (3, ''Children'')]\<rparr>,
         total_changes = 3\<rparr>)"
proof -
  have h: "(1::int) \<le> 2" by simp
  have m: "(2::int) \<le> sys_maxsize" by (simp add: sys_maxsize_def)
  have e: "executemany sql_insert_genre [''Adventure'', ''Animation'', ''Children'']
             fresh_connection
     = (Inr (),
        \<lparr>committed = empty_store,
         pending = empty_store\<lparr>genres :=
                       [(1, ''Adventure''), (2, ''Animation''), (3, ''Children'')]\<rparr>,
         total_changes = 3\<rparr>)"
    by (simp add: sql_insert_genre_def next_genre_id_def fresh_connection_def empty_store_def)
  from load_runs_in_one_transaction [OF h m,
      of "[''Adventure'', ''Animation'', ''Children'']" sql_insert_genre fresh_connection]
  have "run_insert fresh_connection sql_insert_genre
          [''Adventure'', ''Animation'', ''Children''] 2
     = (case executemany sql_insert_genre [''Adventure'', ''Animation'', ''Children'']
               fresh_connection of
          (Inl e, c1) \<Rightarrow> (Inl e, c1\<lparr>pending := committed fresh_connection\<rparr>)
        | (Inr u, c1) \<Rightarrow>
            (Inr (total_changes c1 - total_changes fresh_connection),
             c1\<lparr>committed := pending c1\<rparr>))"
    by blast
  with h m show ?thesis unfolding e by (simp add: fresh_connection_def)
qed

text \<open>
  C1 as stated fails. The store holds the movie 1. With batch size 1 the two ratings
  below form two batches. The first batch executes without error; the second violates
  the foreign key to \<open>movies\<close>. The loader raises and the store holds no rating
  afterwards: the row of the earlier, complete batch was rolled back with the failing
  one. And the batch size \<open>2 ** 63\<close> is at least 1, but \<open>islice\<close> refuses it: the load
  raises ValueError and inserts nothing.
\<close>

theorem earlier_batch_rolled_back_counterexample:
  "chunked [(1, 1, 4, 100), (1, 2, 4, 100) :: rating_row] 1
     = Inr [[(1, 1, 4, 100)], [(1, 2, 4, 100)]]
   \<and> fst (executemany sql_insert_rating [(1, 1, 4, 100)]
        (snd (insert_movies fresh_connection [toy_story] 1))) = Inr ()
   \<and> insert_ratings (\<lambda>t :: int. t)
        (snd (insert_movies fresh_connection [toy_story] 1))
        [\<lparr>rt_userId = 1, rt_movieId = 1, rt_rating = 4, rt_timestamp = 100\<rparr>,
         \<lparr>rt_userId = 1, rt_movieId = 2, rt_rating = 4, rt_timestamp = 100\<rparr>] 1
     = (Inl IntegrityError,
        \<lparr>committed = empty_store\<lparr>movies := [toy_story_row]\<rparr>,
         pending = empty_store\<lparr>movies := [toy_story_row]\<rparr>,
         total_changes = 2\<rparr>)
   \<and> ratings (empty_store\<lparr>movies := [toy_story_row]\<rparr>) = []
   \<and> (1::int) \<le> 2 ^ 63
   \<and> insert_movies fresh_connection [toy_story] (2 ^ 63) = (Inl ValueError, fresh_connection)"
  by (simp add: insert_ratings_def insert_movies_def run_insert_def transaction_def
      execute_chunks_def chunked_def sys_maxsize_def chunked_loop.simps sql_insert_rating_def
      sql_insert_movie_def rating_key_def movie_ids_def rollback_def commit_def
      fresh_connection_def empty_store_def toy_story_def toy_story_row_def)



section \<open>Properties of the enrichment client\<close>

lemma fetch_movie_hit:
  "cache self imdb_id = Some entry \<Longrightarrow> fetch_movie net self imdb_id = (Inr (Some entry), self)"
  by (simp add: fetch_movie_def)

lemma fetch_attempts_cache_grows:
  "cache self imdb_id = None \<Longrightarrow>
     cache self \<subseteq>\<^sub>m cache (snd (fetch_attempts net self imdb_id attempt))"
proof (induction net self imdb_id attempt rule: fetch_attempts.induct)
  case (1 net self imdb_id attempt)
  show ?case
  proof (cases "max_retries self < attempt")
    case True
    then show ?thesis by (simp add: fetch_attempts.simps)
  next
    case False
    obtain r self1 where sg: "session_get net self imdb_id = (r, self1)"
      by (cases "session_get net self imdb_id")
    then have c1: "cache self1 = cache self" by (auto simp: session_get_def)
    show ?thesis
    proof (cases r)
      case RequestException
      obtain br self2 where bo: "backoff self1 attempt = (br, self2)"
        by (cases "backoff self1 attempt")
      then have c2: "cache self2 = cache self1"
        by (auto simp: backoff_def time_sleep_def split: sum.splits if_splits)
      show ?thesis
      proof (cases br)
        case (Inl e)
        with False sg RequestException bo c1 c2 show ?thesis
          by (subst fetch_attempts.simps) simp
      next
        case (Inr u)
        from "1.IH" [OF False sg [symmetric] RequestException bo [symmetric] Inr] c1 c2 "1.prems"
        have "cache self2 \<subseteq>\<^sub>m cache (snd (fetch_attempts net self2 imdb_id (attempt + 1)))"
          by simp
        with False sg RequestException bo Inr c1 c2 show ?thesis
          by (subst fetch_attempts.simps) simp
      qed
    next
      case (Body j)
      with False sg c1 "1.prems" show ?thesis
        by (subst fetch_attempts.simps)
           (auto simp: persist_cache_def time_sleep_def map_le_def Let_def
                 split: json.splits sum.splits prod.splits if_splits)
    qed
  qed
qed

lemma fetch_movie_cache_grows:
  "cache self \<subseteq>\<^sub>m cache (snd (fetch_movie net self imdb_id))"
  by (cases "cache self imdb_id") (simp_all add: fetch_movie_def fetch_attempts_cache_grows)

lemma fetch_sequence_cache_grows:
  "cache self \<subseteq>\<^sub>m cache (fold (\<lambda>i s. snd (fetch_movie net s i)) ids self)"
proof (induction ids arbitrary: self)
  case Nil
  then show ?case by simp
next
  case (Cons i ids)
  have "cache self \<subseteq>\<^sub>m cache (snd (fetch_movie net self i))"
    by (rule fetch_movie_cache_grows)
  also have "\<dots> \<subseteq>\<^sub>m cache (fold (\<lambda>i s. snd (fetch_movie net s i)) ids (snd (fetch_movie net self i)))"
    by (rule Cons.IH)
  finally (map_le_trans) show ?case by simp
qed

lemma backoff_ok:
  "attempt \<le> 1024 \<Longrightarrow>
     backoff self attempt
       = (Inr (), self\<lparr>sleeps := sleeps self @ [min 5 ((1 / 2) * 2 powi (attempt - 1))]\<rparr>)"
proof -
  assume small: "attempt \<le> 1024"
  have "(0::rat) < 2 powi (attempt - 1)" by (rule zero_less_power_int) simp
  then have "\<not> min 5 ((1 / 2) * 2 powi (attempt - 1)) < (0::rat)"
    by (simp add: min_def not_less less_imp_le)
  with small show ?thesis
    by (simp add: backoff_def backoff_delay_def time_sleep_def)
qed

lemma fetch_attempts_failures:
  assumes "\<forall>j<n. net (length (requests self) + j) imdb_id = RequestException"
    and "attempt + int n - 1 \<le> max_retries self"
    and "attempt + int n - 1 \<le> 1024"
  shows "fetch_attempts net self imdb_id attempt =
           fetch_attempts net
             (self\<lparr>requests := requests self @ replicate n imdb_id,
                   sleeps := sleeps self
                     @ map (\<lambda>j. min 5 ((1 / 2) * 2 powi (attempt + int j - 1))) [0..<n]\<rparr>)
             imdb_id (attempt + int n)"
  using assms
proof (induction n arbitrary: self attempt)
  case 0
  then show ?case by simp
next
  case (Suc n)
  define self2 where "self2 = self\<lparr>requests := requests self @ [imdb_id],
      sleeps := sleeps self @ [min 5 ((1 / 2) * 2 powi (attempt - 1))]\<rparr>"
  from Suc.prems have first: "net (length (requests self)) imdb_id = RequestException"
    by (metis add.right_neutral zero_less_Suc)
  from Suc.prems have in_range: "\<not> max_retries self < attempt" and small: "attempt \<le> 1024"
    by simp_all
  have step: "fetch_attempts net self imdb_id attempt
              = fetch_attempts net self2 imdb_id (attempt + 1)"
    using first in_range
    by (subst fetch_attempts.simps)
       (simp add: session_get_def backoff_ok [OF small] self2_def)
  have later: "\<forall>j<n. net (length (requests self2) + j) imdb_id = RequestException"
  proof (intro allI impI)
    fix j assume "j < n"
    then have "Suc j < Suc n" by simp
    with Suc.prems(1) have "net (length (requests self) + Suc j) imdb_id = RequestException"
      by blast
    then show "net (length (requests self2) + j) imdb_id = RequestException"
      by (simp add: self2_def)
  qed
  have ih: "fetch_attempts net self2 imdb_id (attempt + 1) =
           fetch_attempts net
             (self2\<lparr>requests := requests self2 @ replicate n imdb_id,
                   sleeps := sleeps self2
                     @ map (\<lambda>j. min 5 ((1 / 2) * 2 powi (attempt + 1 + int j - 1))) [0..<n]\<rparr>)
             imdb_id (attempt + 1 + int n)"
    using later Suc.prems(2,3) by (intro Suc.IH) (simp_all add: self2_def)
  have shift: "map (\<lambda>j. min (5::rat) ((1 / 2) * 2 powi (attempt + int j - 1))) [0..<Suc n]
          = min 5 ((1 / 2) * 2 powi (attempt - 1))
            # map (\<lambda>j. min 5 ((1 / 2) * 2 powi (attempt + 1 + int j - 1))) [0..<n]"
  proof -
    have "[0..<Suc n] = 0 # map Suc [0..<n]"
      by (simp add: upt_conv_Cons map_Suc_upt del: upt_Suc)
    then have "map (\<lambda>j. min (5::rat) ((1 / 2) * 2 powi (attempt + int j - 1))) [0..<Suc n]
          = min 5 ((1 / 2) * 2 powi (attempt - 1))
            # map (\<lambda>j. min 5 ((1 / 2) * 2 powi (attempt + int (Suc j) - 1))) [0..<n]"
      by (simp add: comp_def del: upt_Suc)
    moreover have "\<And>j. attempt + int (Suc j) - 1 = attempt + 1 + int j - 1" by simp
    ultimately show ?thesis by (simp only:)
  qed
  have rec_eq: "self2\<lparr>requests := requests self2 @ replicate n imdb_id,
                   sleeps := sleeps self2
                     @ map (\<lambda>j. min 5 ((1 / 2) * 2 powi (attempt + 1 + int j - 1))) [0..<n]\<rparr>
      = self\<lparr>requests := requests self @ replicate (Suc n) imdb_id,
                   sleeps := sleeps self
                     @ map (\<lambda>j. min 5 ((1 / 2) * 2 powi (attempt + int j - 1))) [0..<Suc n]\<rparr>"
    unfolding shift by (simp add: self2_def)
  have idx: "attempt + 1 + int n = attempt + int (Suc n)" by simp
  show ?case unfolding step ih rec_eq idx ..
qed

lemma fetch_movie_after_failures:
  assumes uncached: "cache self imdb_id = None"
    and within: "int n < max_retries self" and small: "n \<le> 1024"
    and failures: "\<forall>j<n. net (length (requests self) + j) imdb_id = RequestException"
    and answer: "net (length (requests self) + n) imdb_id = Body (JObj p)"
  shows "fetch_movie net self imdb_id =
     (if map_of p ''Response'' = Some (JStr ''False'') then
        (Inr None,
         self\<lparr>cache := (cache self)(imdb_id \<mapsto> [(''Response'', JStr ''False''),
                    (''Error'', case map_of p ''Error'' of
                                  None \<Rightarrow> JStr ''unknown error'' | Some v \<Rightarrow> v)]),
               cache_file := (cache self)(imdb_id \<mapsto> [(''Response'', JStr ''False''),
                    (''Error'', case map_of p ''Error'' of
                                  None \<Rightarrow> JStr ''unknown error'' | Some v \<Rightarrow> v)]),
               requests := requests self @ replicate (Suc n) imdb_id,
               sleeps := sleeps self
                 @ map (\<lambda>j. min 5 ((1 / 2) * 2 powi (int j))) [0..<n]\<rparr>)
      else if rate_limit_delay self < 0 then
        (Inl ValueError,
         self\<lparr>cache := (cache self)(imdb_id \<mapsto> p),
               cache_file := (cache self)(imdb_id \<mapsto> p),
               requests := requests self @ replicate (Suc n) imdb_id,
               sleeps := sleeps self
                 @ map (\<lambda>j. min 5 ((1 / 2) * 2 powi (int j))) [0..<n]\<rparr>)
      else
        (Inr (Some p),
         self\<lparr>cache := (cache self)(imdb_id \<mapsto> p),
               cache_file := (cache self)(imdb_id \<mapsto> p),
               requests := requests self @ replicate (Suc n) imdb_id,
               sleeps := sleeps self
                 @ map (\<lambda>j. min 5 ((1 / 2) * 2 powi (int j))) [0..<n]
                 @ [rate_limit_delay self]\<rparr>))"
proof -
  define selfN where "selfN = self\<lparr>requests := requests self @ replicate n imdb_id,
      sleeps := sleeps self @ map (\<lambda>j. min 5 ((1 / 2) * 2 powi (1 + int j - 1))) [0..<n]\<rparr>"
  have "fetch_attempts net self imdb_id 1 = fetch_attempts net selfN imdb_id (1 + int n)"
    unfolding selfN_def using failures within small by (intro fetch_attempts_failures) simp_all
  moreover have "net (length (requests selfN)) imdb_id = Body (JObj p)"
    using answer by (simp add: selfN_def)
  moreover have "\<not> max_retries selfN < 1 + int n"
    using within by (simp add: selfN_def)
  ultimately show ?thesis
    using uncached
    by (simp add: fetch_movie_def fetch_attempts.simps [of net selfN] session_get_def
        persist_cache_def time_sleep_def Let_def)
      (simp add: selfN_def replicate_append_same)
qed

lemma fetch_movie_caches_outcome:
  assumes uncached: "cache self imdb_id = None"
    and within: "int n < max_retries self" and small: "n \<le> 1024"
    and failures: "\<forall>j<n. net (length (requests self) + j) imdb_id = RequestException"
    and answer: "net (length (requests self) + n) imdb_id = Body (JObj p)"
  shows "cache (snd (fetch_movie net self imdb_id)) imdb_id =
     Some (if map_of p ''Response'' = Some (JStr ''False'')
           then [(''Response'', JStr ''False''),
                 (''Error'', case map_of p ''Error'' of
                               None \<Rightarrow> JStr ''unknown error'' | Some v \<Rightarrow> v)]
           else p)"
  by (simp add: fetch_movie_after_failures
      [where net = net and self = self and imdb_id = imdb_id and n = n and p = p, OF assms])

text \<open>
  The backoff schedule below the float overflow: each delay is twice the previous one,
  capped at 5 seconds.
\<close>

lemma backoff_delay_doubles:
  assumes "1 \<le> attempt" and "attempt + 1 \<le> 1024"
  shows "\<exists>d. backoff_delay attempt = Inr d \<and> backoff_delay (attempt + 1) = Inr (min 5 (2 * d))"
proof -
  have "(2::rat) powi (attempt + 1 - 1) = 2 powi (attempt - 1 + 1)" by simp
  also have "\<dots> = 2 powi (attempt - 1) * 2" by (subst power_int_add) simp_all
  finally have "min (5::rat) ((1 / 2) * 2 powi (attempt + 1 - 1))
        = min 5 (2 * min 5 ((1 / 2) * 2 powi (attempt - 1)))"
    by (simp add: min_def)
  with assms show ?thesis by (simp add: backoff_delay_def)
qed

text \<open>
  Up to 1024 transient failures followed by a success, all within \<open>max_retries\<close>: the
  payload is returned, the cache and the cache file gain the one entry for the id, one
  request is sent per attempt, and the sleeps are the \<open>n\<close> backoff delays
  \<open>0.5, 1, 2, 4, 5, 5, ...\<close> followed by the rate-limit delay.
\<close>

lemma retried_fetch_caches_once:
  assumes uncached: "cache self imdb_id = None"
    and pos: "0 < n" and within: "int n < max_retries self" and small: "n \<le> 1024"
    and failures: "\<forall>j<n. net (length (requests self) + j) imdb_id = RequestException"
    and answer: "net (length (requests self) + n) imdb_id = Body (JObj p)"
    and found: "map_of p ''Response'' \<noteq> Some (JStr ''False'')"
    and delay: "0 \<le> rate_limit_delay self"
  shows "fetch_movie net self imdb_id =
        (Inr (Some p),
         self\<lparr>cache := (cache self)(imdb_id \<mapsto> p),
               cache_file := (cache self)(imdb_id \<mapsto> p),
               requests := requests self @ replicate (Suc n) imdb_id,
               sleeps := sleeps self
                 @ map (\<lambda>j. min 5 ((1 / 2) * 2 powi (int j))) [0..<n]
                 @ [rate_limit_delay self]\<rparr>)"
  using found delay
  by (simp add: fetch_movie_after_failures
      [where net = net and self = self and imdb_id = imdb_id and n = n and p = p,
       OF uncached within small failures answer])

section \<open>Claims about the enrichment client\<close>

text \<open>
  C4. Take an id that is not cached, and a first fetch that ends with a success or with a
  structured "not found": after \<open>n\<close> transient failures (\<open>n\<close> below \<open>max_retries\<close>,
  and at most 1024, the last attempt whose backoff can be computed) the service answers
  with a JSON object. Then the id is cached, with the payload or with the negative marker,
  and after any further fetches of any ids every fetch of this id returns the cached entry
  and leaves the client as it was: no request is sent and nothing sleeps, whatever the
  network would answer and whichever of the two outcomes was cached.
\<close>

theorem cached_outcome_is_not_requested_again:
  assumes uncached: "cache self imdb_id = None"
    and within: "int n < max_retries self" and small: "n \<le> 1024"
    and failures: "\<forall>j<n. net (length (requests self) + j) imdb_id = RequestException"
    and answer: "net (length (requests self) + n) imdb_id = Body (JObj p)"
    and later: "later = fold (\<lambda>i s. snd (fetch_movie net s i)) others
                         (snd (fetch_movie net self imdb_id))"
    and entry: "entry = (if map_of p ''Response'' = Some (JStr ''False'')
                         then [(''Response'', JStr ''False''),
                               (''Error'', case map_of p ''Error'' of
                                   None \<Rightarrow> JStr ''unknown error'' | Some v \<Rightarrow> v)]
                         else p)"
  shows "cache later imdb_id = Some entry
       \<and> fetch_movie net_later later imdb_id = (Inr (Some entry), later)
       \<and> requests (snd (fetch_movie net_later later imdb_id)) = requests later
       \<and> sleeps (snd (fetch_movie net_later later imdb_id)) = sleeps later"
proof -
  have "cache (snd (fetch_movie net self imdb_id)) imdb_id = Some entry"
    unfolding entry using uncached within small failures answer
    by (rule fetch_movie_caches_outcome [where net = net and n = n])
  moreover have "cache (snd (fetch_movie net self imdb_id)) \<subseteq>\<^sub>m cache later"
    unfolding later by (rule fetch_sequence_cache_grows)
  ultimately have "cache later imdb_id = Some entry"
    by (auto simp: map_le_def dom_def)
  then show ?thesis by (simp add: fetch_movie_hit)
qed

theorem cached_outcome_is_not_requested_again_witness:
  "fetch_movie (failing_then 0 found)
     (snd (fetch_movie (failing_then 1 not_found) (sample_client 3) ''tt0000001''))
     ''tt0000001''
   = (Inr (Some not_found),
      snd (fetch_movie (failing_then 1 not_found) (sample_client 3) ''tt0000001''))
   \<and> requests (snd (fetch_movie (failing_then 1 not_found) (sample_client 3) ''tt0000001''))
     = [''tt0000001'', ''tt0000001'']"
proof -
  let ?net = "failing_then 1 not_found"
  let ?c = "sample_client 3"
  have h1: "cache ?c ''tt0000001'' = None" by (simp add: sample_client_def)
  have h2: "int 1 < max_retries ?c" by (simp add: sample_client_def)
  have h3: "(1::nat) \<le> 1024" by simp
  have h4: "\<forall>j<1. ?net (length (requests ?c) + j) ''tt0000001'' = RequestException"
    by (simp add: failing_then_def sample_client_def)
  have h5: "?net (length (requests ?c) + 1) ''tt0000001'' = Body (JObj not_found)"
    by (simp add: failing_then_def sample_client_def)
  have r: "requests (snd (fetch_movie ?net ?c ''tt0000001'')) = [''tt0000001'', ''tt0000001'']"
    by (simp add: fetch_movie_def fetch_attempts.simps session_get_def backoff_def
        backoff_delay_def time_sleep_def persist_cache_def Let_def
        failing_then_def sample_client_def not_found_def)
  have e: "(if map_of not_found ''Response'' = Some (JStr ''False'')
            then [(''Response'', JStr ''False''),
                  (''Error'', case map_of not_found ''Error'' of
                                None \<Rightarrow> JStr ''unknown error'' | Some v \<Rightarrow> v)]
            else not_found) = not_found"
    by (simp add: not_found_def)
  from cached_outcome_is_not_requested_again
    [where net = ?net and self = ?c and imdb_id = "''tt0000001''" and n = 1
       and others = "[]" and net_later = "failing_then 0 found" and p = not_found,
     OF h1 h2 h3 h4 h5 refl refl]
  show ?thesis using r unfolding e by simp
qed

text \<open>
  C7 fails on the code. With \<open>max_retries = 1026\<close> and 1025 transient failures before
  the success, the 1025th backoff evaluates \<open>0.5 * 2 ** 1024\<close>, which raises
  OverflowError: the fetch raises after 1024 delays, the success is never requested and
  nothing is cached. (For up to 1024 failures the claim holds: \<open>retried_fetch_caches_once\<close>
  and \<open>backoff_delay_doubles\<close>.)
\<close>

theorem retry_overflow_at_attempt_1025:
  "fetch_movie (failing_then 1025 found) (sample_client 1026) ''tt0114709''
   = (Inl OverflowError,
      (sample_client 1026)
        \<lparr>requests := replicate 1025 ''tt0114709'',
         sleeps := map (\<lambda>j. min 5 ((1 / 2) * 2 powi (int j))) [0..<1024]\<rparr>)
   \<and> cache (sample_client 1026) = Map.empty"
proof -
  let ?net = "failing_then 1025 found"
  let ?c = "sample_client 1026"
  define c2 where "c2 = ?c\<lparr>requests := requests ?c @ replicate 1024 ''tt0114709'',
      sleeps := sleeps ?c @ map (\<lambda>j. min 5 ((1 / 2) * 2 powi (1 + int j - 1))) [0..<1024]\<rparr>"
  have "fetch_attempts ?net ?c ''tt0114709'' 1 = fetch_attempts ?net c2 ''tt0114709'' (1 + int 1024)"
    unfolding c2_def
    by (intro fetch_attempts_failures) (simp_all add: failing_then_def sample_client_def)
  moreover have "length (requests c2) = 1024" by (simp add: c2_def sample_client_def)
  moreover have "max_retries c2 = 1026" by (simp add: c2_def sample_client_def)
  ultimately have "fetch_attempts ?net ?c ''tt0114709'' 1
      = (Inl OverflowError, c2\<lparr>requests := requests c2 @ [''tt0114709'']\<rparr>)"
    by (simp add: fetch_attempts.simps [of _ c2] session_get_def backoff_def
        backoff_delay_def failing_then_def)
  moreover have "replicate 1024 ''tt0114709'' @ [''tt0114709''] = replicate 1025 ''tt0114709''"
  proof -
    have "(1025::nat) = Suc 1024" by simp
    then have "replicate 1025 ''tt0114709'' = ''tt0114709'' # replicate 1024 ''tt0114709''"
      by (simp only: replicate_Suc)
    then show ?thesis by (simp only: replicate_append_same)
  qed
  ultimately show ?thesis by (simp add: fetch_movie_def c2_def sample_client_def)
qed

text \<open>
  C2 fails on the code. The service answers "not found" for the id. The first bulk fetch
  returns the empty mapping and caches the negative marker; \<open>fetch_movie\<close> then returns
  the cached marker itself, a non-empty dict, so the second bulk fetch returns a mapping
  with an entry for the id whose outcome is "not found".
\<close>

theorem cached_not_found_is_returned_by_fetch_bulk:
  "fst (fetch_bulk (failing_then 0 not_found) (sample_client 3) [''tt0000001''] None)
     = Inr Map.empty
   \<and> fst (fetch_bulk (failing_then 0 not_found)
            (snd (fetch_bulk (failing_then 0 not_found) (sample_client 3) [''tt0000001''] None))
            [''tt0000001''] None)
     = Inr [''tt0000001'' \<mapsto> not_found]"
  by (simp add: fetch_bulk_def fetch_movie_def fetch_attempts.simps session_get_def
      persist_cache_def Let_def failing_then_def sample_client_def not_found_def)

section \<open>Properties of the extraction\<close>

subsection \<open>Decimal strings and padding\<close>

lemma digit_char_is_digit: "k < 10 \<Longrightarrow> is_digit (digit_char k)"
  unfolding is_digit_def digit_char_def by (rule nth_mem) simp

lemma digit_value_digit_char: "k < 10 \<Longrightarrow> digit_value (digit_char k) = k"
proof -
  assume "k < 10"
  then have "k \<in> {0, 1, 2, 3, 4, 5, 6, 7, 8, 9}" by auto
  then show ?thesis by (auto simp: digit_value_def digit_char_def)
qed

lemma str_nat_digits: "list_all is_digit (str_nat n)"
proof (induction n rule: str_nat.induct)
  case (1 n)
  show ?case
  proof (cases "n < 10")
    case True
    then show ?thesis by (subst str_nat.simps) (simp add: digit_char_is_digit)
  next
    case False
    with "1.IH" show ?thesis by (subst str_nat.simps) (simp add: digit_char_is_digit)
  qed
qed

lemma str_nat_nonempty: "str_nat n \<noteq> []"
  by (subst str_nat.simps) simp

lemma str_nat_length: "n < 10 ^ k \<Longrightarrow> 0 < k \<Longrightarrow> length (str_nat n) \<le> k"
proof (induction n arbitrary: k rule: str_nat.induct)
  case (1 n)
  show ?case
  proof (cases "n < 10")
    case True
    with "1.prems" show ?thesis by (subst str_nat.simps) simp
  next
    case False
    with "1.prems" obtain j where k: "k = Suc j" and j: "0 < j"
      by (cases k; cases "k - 1") auto
    from "1.prems"(1) k have "n div 10 < 10 ^ j" by (simp add: less_mult_imp_div_less mult.commute)
    with "1.IH" [OF False _ j] have "length (str_nat (n div 10)) \<le> j" by simp
    with False k show ?thesis by (subst str_nat.simps) simp
  qed
qed

lemma int_of_digits_snoc:
  "int_of_digits (s @ [c]) = 10 * int_of_digits s + digit_value c"
  by (simp add: int_of_digits_def)

lemma int_of_digits_str_nat: "int_of_digits (str_nat n) = n"
proof (induction n rule: str_nat.induct)
  case (1 n)
  show ?case
  proof (cases "n < 10")
    case True
    then show ?thesis
      by (subst str_nat.simps) (simp add: int_of_digits_def digit_value_digit_char)
  next
    case False
    with "1.IH" show ?thesis
      by (subst str_nat.simps) (simp add: int_of_digits_snoc digit_value_digit_char)
  qed
qed

lemma int_of_digits_zeros:
  "int_of_digits (replicate k CHR ''0'' @ s) = int_of_digits s"
proof -
  have "fold (\<lambda>c n. 10 * n + digit_value c) (replicate k CHR ''0'') 0 = 0"
    by (induction k) (simp_all add: digit_value_def)
  then show ?thesis by (simp add: int_of_digits_def)
qed

lemma zfill_length: "length (zfill w s) = max w (length s)"
  by (cases s) (auto simp: zfill_def)

lemma zfill_digits:
  assumes "list_all is_digit s"
  shows "zfill w s = replicate (w - length s) CHR ''0'' @ s"
proof (cases s)
  case Nil
  then show ?thesis by (simp add: zfill_def)
next
  case (Cons c cs)
  with assms have "is_digit c" by simp
  then have "c \<noteq> CHR ''+''" "c \<noteq> CHR ''-''" by (auto simp: is_digit_def)
  with Cons show ?thesis by (simp add: zfill_def)
qed

lemma imdb_tag_digits:
  assumes "s \<noteq> []" and "list_all is_digit s" and "length s \<le> 7"
  shows "\<exists>body. imdb_tag s = Some (''tt'' @ body) \<and> length body = 7
               \<and> list_all is_digit body \<and> int_of_digits body = int_of_digits s"
proof -
  have z: "zfill 7 s = replicate (7 - length s) CHR ''0'' @ s"
    using assms(2) by (rule zfill_digits)
  have "length (zfill 7 s) = 7" using assms(3) by (simp add: zfill_length)
  moreover have "list_all is_digit (zfill 7 s)"
  proof -
    have "is_digit CHR ''0''" by (simp add: is_digit_def)
    then have "list_all is_digit (replicate (7 - length s) CHR ''0'')"
      by (simp add: list_all_iff)
    with assms(2) show ?thesis by (simp add: z)
  qed
  moreover have "int_of_digits (zfill 7 s) = int_of_digits s"
    by (simp add: z int_of_digits_zeros)
  ultimately show ?thesis using assms(1) by (simp add: imdb_tag_def)
qed

subsection \<open>Missing source files\<close>

lemma try_map_error:
  assumes "\<And>x e. f x = Inl e \<Longrightarrow> e = k" and "try_map f xs = Inl e"
  shows "e = k"
  using assms(2)
proof (induction xs arbitrary: e)
  case Nil
  then show ?case by simp
next
  case (Cons x xs)
  then show ?case using assms(1) by (auto split: sum.splits)
qed

lemma select_columns_error: "select_columns df labels = Inl e \<Longrightarrow> e = KeyError"
proof -
  assume a: "select_columns df labels = Inl e"
  have inner: "\<And>r e. try_map (\<lambda>l. and_then (row_get r l) (\<lambda>v. Inr (l, v))) labels = Inl e
                  \<Longrightarrow> e = KeyError"
    by (erule try_map_error [rotated])
       (auto simp: and_then_def row_get_def split: option.splits sum.splits)
  show ?thesis
  proof (cases "set labels \<subseteq> set (df_columns df)")
    case False
    with a show ?thesis by (simp add: select_columns_def)
  next
    case True
    with a have "try_map (\<lambda>r. try_map (\<lambda>l. and_then (row_get r l) (\<lambda>v. Inr (l, v))) labels)
                   (df_rows df) = Inl e"
      by (auto simp: select_columns_def and_then_def split: sum.splits)
    then show ?thesis by (rule try_map_error [rotated]) (rule inner)
  qed
qed

text \<open>
  Whatever the other two files hold: without the links file, and without the movies
  file, the extraction raises KeyError; without the ratings file the extraction returns
  the empty table, on which the validation of the ratings raises KeyError.
\<close>

lemma extract_without_links:
  "fs LINKS_CSV = NoFile \<Longrightarrow> fs MOVIES_CSV \<noteq> BadFile \<Longrightarrow> fs RATINGS_CSV \<noteq> BadFile
     \<Longrightarrow> extract_csv_data fs = Inl KeyError"
  by (simp add: extract_csv_data_def read_csv_def and_then_def select_columns_def
      empty_frame_def split: csv_file.splits)

lemma extract_without_movies:
  assumes "fs MOVIES_CSV = NoFile" and "fs LINKS_CSV \<noteq> BadFile" and "fs RATINGS_CSV \<noteq> BadFile"
  shows "extract_csv_data fs = Inl KeyError"
proof -
  from assms(1) have m: "read_csv fs MOVIES_CSV = Inr empty_frame"
    by (simp add: read_csv_def)
  from assms(3) obtain ratings_df where r: "read_csv fs RATINGS_CSV = Inr ratings_df"
    by (cases "fs RATINGS_CSV") (simp_all add: read_csv_def)
  from assms(2) obtain links where l: "read_csv fs LINKS_CSV = Inr links"
    by (cases "fs LINKS_CSV") (simp_all add: read_csv_def)
  have no_key: "\<And>right. merge_left_one_to_one empty_frame right ''movieId'' = Inl KeyError"
    by (simp add: merge_left_one_to_one_def column_def empty_frame_def and_then_def)
  show ?thesis
  proof (cases "select_columns links [''movieId'', ''imdbId'']")
    case (Inl e)
    then have "e = KeyError" by (rule select_columns_error)
    with Inl m r l show ?thesis by (simp add: extract_csv_data_def and_then_def)
  next
    case (Inr links_sel)
    with m r l no_key show ?thesis by (simp add: extract_csv_data_def and_then_def)
  qed
qed

lemma validate_empty_frame:
  "validate_ratings_dataframe parse to_ns empty_frame = Inl KeyError"
  by (simp add: validate_ratings_dataframe_def drop_duplicates_def and_then_def empty_frame_def)

text \<open>
  With the three files present the extraction joins and derives as the end-to-end
  scenario of the specification says.
\<close>

lemma extract_toy_story:
  "extract_csv_data
     (\<lambda>p. if p = LINKS_CSV then
            CsvFile \<lparr>df_columns = [''movieId'', ''imdbId'', ''tmdbId''],
                     df_rows = [[(''movieId'', Number (Fin 1)),
                                 (''imdbId'', Number (Fin 114709)),
                                 (''tmdbId'', Number (Fin 862))]]\<rparr>
          else if p = MOVIES_CSV then
            CsvFile \<lparr>df_columns = [''movieId'', ''title'', ''genres''],
                     df_rows = [[(''movieId'', Number (Fin 1)),
                                 (''title'', Str ''Toy Story (1995)''),
                                 (''genres'', Str ''Adventure|Animation|Children'')]]\<rparr>
          else NoFile)
   = Inr (\<lparr>df_columns = [''movieId'', ''title'', ''genres'', ''imdbId'', ''year''],
           df_rows = [[(''movieId'', Number (Fin 1)),
                       (''title'', Str ''Toy Story (1995)''),
                       (''genres'', Str ''Adventure|Animation|Children''),
                       (''imdbId'', Str ''tt0114709''),
                       (''year'', Number (Fin 1995))]]\<rparr>,
          empty_frame)"
  by (simp add: extract_csv_data_def read_csv_def and_then_def select_columns_def
      merge_left_one_to_one_def object_dtype_def column_def row_get_def assign_column_def
      LINKS_CSV_def MOVIES_CSV_def RATINGS_CSV_def Let_def
      extract_year_def strip_def lstrip_def rstrip_def is_space_def is_digit_def
      int_of_digits_def digit_value_def
      format_imdb_id_def isna_def imdb_tag_def str_int_def trunc_def str_nat.simps
      zfill_def digit_char_def)


text \<open>
  A numeric key column against a key column of strings is refused by the join.
\<close>

lemma merge_on_number_and_string_keys:
  "merge_left_one_to_one
     \<lparr>df_columns = [''movieId'', ''title''],
      df_rows = [[(''movieId'', Number (Fin 1)), (''title'', Str ''Toy Story (1995)'')]]\<rparr>
     \<lparr>df_columns = [''movieId'', ''imdbId''],
      df_rows = [[(''movieId'', Str ''1''), (''imdbId'', Str ''0114709'')]]\<rparr>
     ''movieId''
   = Inl ValueError"
  by (simp add: merge_left_one_to_one_def object_dtype_def column_def row_get_def and_then_def)

section \<open>Claims about the extraction\<close>

text \<open>
  C6 (as amended). An absent or not-a-number source value normalizes to absent, and so
  does the empty string. Every other string normalizes to \<open>tt\<close> followed by the string
  padded with zeros on the left to at least 7 characters, and every finite number to
  \<open>tt\<close> followed by the decimal text of its integer part padded in the same way; a
  text longer than 7 characters is kept whole, so the body has \<open>max 7 (length s)\<close>
  characters. When the text is made of at most 7 digits, as for every id number from 0 to
  9999999, the body is exactly 7 digits with the value of the id.
\<close>

theorem format_imdb_id_pads_to_seven:
  "(isna v \<longrightarrow> format_imdb_id v = Inr None)
   \<and> format_imdb_id (Str []) = Inr None
   \<and> (s \<noteq> [] \<longrightarrow>
        format_imdb_id (Str s) = Inr (Some (''tt'' @ zfill 7 s))
        \<and> length (zfill 7 s) = max 7 (length s))
   \<and> format_imdb_id (Number (Fin x)) = Inr (Some (''tt'' @ zfill 7 (str_int (trunc x))))
   \<and> (s \<noteq> [] \<and> list_all is_digit s \<and> length s \<le> 7 \<longrightarrow>
        (\<exists>body. format_imdb_id (Str s) = Inr (Some (''tt'' @ body)) \<and> length body = 7
               \<and> list_all is_digit body \<and> int_of_digits body = int_of_digits s))
   \<and> (0 \<le> n \<and> n < 10000000 \<longrightarrow>
        (\<exists>body. format_imdb_id (Number (Fin (of_int n))) = Inr (Some (''tt'' @ body))
               \<and> length body = 7 \<and> list_all is_digit body \<and> int (int_of_digits body) = n))"
proof -
  have a: "isna v \<longrightarrow> format_imdb_id v = Inr None"
    by (simp add: format_imdb_id_def)
  have b: "format_imdb_id (Str []) = Inr None"
    by (simp add: format_imdb_id_def isna_def imdb_tag_def)
  have c: "s \<noteq> [] \<longrightarrow>
        format_imdb_id (Str s) = Inr (Some (''tt'' @ zfill 7 s))
        \<and> length (zfill 7 s) = max 7 (length s)"
    by (simp add: format_imdb_id_def isna_def imdb_tag_def zfill_length)
  have "str_int (trunc x) \<noteq> []" by (simp add: str_int_def str_nat_nonempty)
  then have d: "format_imdb_id (Number (Fin x))
                = Inr (Some (''tt'' @ zfill 7 (str_int (trunc x))))"
    by (simp add: format_imdb_id_def isna_def imdb_tag_def)
  have e: "s \<noteq> [] \<and> list_all is_digit s \<and> length s \<le> 7 \<longrightarrow>
        (\<exists>body. format_imdb_id (Str s) = Inr (Some (''tt'' @ body)) \<and> length body = 7
               \<and> list_all is_digit body \<and> int_of_digits body = int_of_digits s)"
    using imdb_tag_digits [of s] by (auto simp: format_imdb_id_def isna_def)
  have f: "0 \<le> n \<and> n < 10000000 \<longrightarrow>
        (\<exists>body. format_imdb_id (Number (Fin (of_int n))) = Inr (Some (''tt'' @ body))
               \<and> length body = 7 \<and> list_all is_digit body \<and> int (int_of_digits body) = n)"
  proof
    assume n: "0 \<le> n \<and> n < 10000000"
    then have t: "trunc (of_int n) = n" by (simp add: trunc_def)
    from n have s: "str_int n = str_nat (nat n)" by (simp add: str_int_def)
    have "(10::nat) ^ 7 = 10000000" by simp
    moreover from n have "nat n < 10000000" by linarith
    ultimately have "nat n < 10 ^ 7" by (simp only:)
    then have len: "length (str_nat (nat n)) \<le> 7" by (rule str_nat_length) simp
    from imdb_tag_digits [OF str_nat_nonempty str_nat_digits len]
    obtain body where "imdb_tag (str_nat (nat n)) = Some (''tt'' @ body)" "length body = 7"
      "list_all is_digit body" "int_of_digits body = int_of_digits (str_nat (nat n))"
      by blast
    with n show "\<exists>body. format_imdb_id (Number (Fin (of_int n))) = Inr (Some (''tt'' @ body))
               \<and> length body = 7 \<and> list_all is_digit body \<and> int (int_of_digits body) = n"
      by (auto simp: format_imdb_id_def isna_def t s int_of_digits_str_nat)
  qed
  from a b c d e f show ?thesis by blast
qed

theorem format_imdb_id_pads_to_seven_witness:
  "isna (Number NaN) \<and> format_imdb_id (Number NaN) = Inr None
   \<and> ''114709'' \<noteq> [] \<and> list_all is_digit ''114709'' \<and> length ''114709'' \<le> 7
   \<and> format_imdb_id (Str ''114709'') = Inr (Some ''tt0114709'')
   \<and> (0::int) \<le> 114709 \<and> (114709::int) < 10000000
   \<and> (\<exists>body. format_imdb_id (Number (Fin (of_int 114709))) = Inr (Some (''tt'' @ body))
          \<and> length body = 7 \<and> list_all is_digit body \<and> int (int_of_digits body) = 114709)"
proof -
  have h1: "isna (Number NaN)" by (simp add: isna_def)
  have h2: "''114709'' \<noteq> [] \<and> list_all is_digit ''114709'' \<and> length ''114709'' \<le> 7"
    by (simp add: is_digit_def)
  have h3: "(0::int) \<le> 114709 \<and> (114709::int) < 10000000" by simp
  have z: "zfill 7 ''114709'' = ''0114709''" by (simp add: zfill_def)
  note T = format_imdb_id_pads_to_seven
    [where v = "Number NaN" and s = "''114709''" and x = 114709 and n = 114709]
  from T h1 have c1: "format_imdb_id (Number NaN) = Inr None" by blast
  from T h2 have "format_imdb_id (Str ''114709'') = Inr (Some (''tt'' @ zfill 7 ''114709''))"
    by blast
  then have c2: "format_imdb_id (Str ''114709'') = Inr (Some ''tt0114709'')"
    by (simp add: z)
  from T h3 have c3: "\<exists>body. format_imdb_id (Number (Fin (of_int 114709))) = Inr (Some (''tt'' @ body))
          \<and> length body = 7 \<and> list_all is_digit body \<and> int (int_of_digits body) = 114709"
    by blast
  from h1 c1 h2 c2 h3 c3 show ?thesis by blast
qed

text \<open>
  C6 as stated fails: an id of 8 digits, as a string or as a number, keeps its 8 digits,
  so the body is not of the fixed width 7; a string that is not a number keeps its
  letters; and the empty string, a present string value, normalizes to absent.
\<close>

theorem format_imdb_id_not_fixed_width_counterexample:
  "format_imdb_id (Str ''12345678'') = Inr (Some ''tt12345678'')
   \<and> format_imdb_id (Number (Fin 12345678)) = Inr (Some ''tt12345678'')
   \<and> length ''12345678'' \<noteq> 7
   \<and> format_imdb_id (Str ''nm0000158'') = Inr (Some ''ttnm0000158'')
   \<and> format_imdb_id (Str []) = Inr None \<and> \<not> isna (Str [])"
  by (simp add: format_imdb_id_def isna_def imdb_tag_def zfill_def str_int_def trunc_def
      str_nat.simps digit_char_def)

text \<open>
  C3 fails on the code. The movies and the ratings files are present and the links file
  is missing: \<open>_read_csv\<close> returns the empty table for it, and the extraction then raises
  KeyError, because the empty table has no column \<open>movieId\<close> or \<open>imdbId\<close> to select.
  The join is not malformed here. (\<open>extract_without_links\<close>, \<open>extract_without_movies\<close>
  and \<open>validate_empty_frame\<close> cover every way a source can be missing.)
\<close>

theorem missing_links_file_raises:
  "extract_csv_data
     (\<lambda>p. if p = LINKS_CSV then NoFile
          else if p = MOVIES_CSV then
            CsvFile \<lparr>df_columns = [''movieId'', ''title'', ''genres''],
                     df_rows = [[(''movieId'', Number (Fin 1)),
                                 (''title'', Str ''Toy Story (1995)''),
                                 (''genres'', Str ''Adventure|Animation|Children'')]]\<rparr>
          else
            CsvFile \<lparr>df_columns = [''userId'', ''movieId'', ''rating'', ''timestamp''],
                     df_rows = [[(''userId'', Number (Fin 1)), (''movieId'', Number (Fin 1)),
                                 (''rating'', Number (Fin 4)),
                                 (''timestamp'', Number (Fin 964982703))]]\<rparr>)
   = Inl KeyError"
  by (simp add: extract_csv_data_def read_csv_def and_then_def select_columns_def
      empty_frame_def LINKS_CSV_def MOVIES_CSV_def RATINGS_CSV_def)

section \<open>Properties of the title patterns\<close>

lemma not_space_parens: "\<not> is_space CHR ''(''" "\<not> is_space CHR '')''"
  by (simp_all add: is_space_def)

lemma year_at_Some:
  assumes "year_at s = Some g"
  shows "\<exists>a b c d rest. s = CHR ''('' # a # b # c # d # CHR '')'' # rest \<and> g = [a, b, c, d]
           \<and> is_digit a \<and> is_digit b \<and> is_digit c \<and> is_digit d \<and> list_all is_space rest"
  using assms by (cases s rule: year_at.cases) (auto split: if_splits)

lemma year_at_match:
  assumes "is_digit a" "is_digit b" "is_digit c" "is_digit d" "list_all is_space w"
  shows "year_at (CHR ''('' # a # b # c # d # CHR '')'' # w) = Some [a, b, c, d]"
  using assms by simp

lemma dropWhile_all: "list_all P xs \<Longrightarrow> dropWhile P (xs @ ys) = dropWhile P ys"
  by (induction xs) simp_all

lemma core_of_suffix:
  assumes "list_all is_space w"
  shows "dropWhile is_space (rev (pre @ CHR ''('' # a # b # c # d # CHR '')'' # w))
         = CHR '')'' # d # c # b # a # CHR ''('' # rev pre"
proof -
  have "list_all is_space (rev w)" using assms by (simp add: list_all_iff)
  then have "dropWhile is_space (rev w @ CHR '')'' # d # c # b # a # CHR ''('' # rev pre)
             = dropWhile is_space (CHR '')'' # d # c # b # a # CHR ''('' # rev pre)"
    by (rule dropWhile_all)
  then show ?thesis by (simp add: not_space_parens)
qed

lemma year_at_core_length:
  assumes "year_at s = Some g"
  shows "length (dropWhile is_space (rev s)) = 6"
proof -
  from year_at_Some [OF assms] obtain a b c d rest where
    s: "s = CHR ''('' # a # b # c # d # CHR '')'' # rest" and ws: "list_all is_space rest"
    by blast
  from core_of_suffix [OF ws, of "[]" a b c d] show ?thesis by (simp add: s)
qed

lemma year_at_not_before:
  assumes "list_all is_space w" and "pre \<noteq> []"
  shows "year_at (pre @ CHR ''('' # a # b # c # d # CHR '')'' # w) = None"
proof (rule ccontr)
  assume "year_at (pre @ CHR ''('' # a # b # c # d # CHR '')'' # w) \<noteq> None"
  then obtain g where "year_at (pre @ CHR ''('' # a # b # c # d # CHR '')'' # w) = Some g"
    by blast
  then have "length (dropWhile is_space (rev (pre @ CHR ''('' # a # b # c # d # CHR '')'' # w))) = 6"
    by (rule year_at_core_length)
  with core_of_suffix [OF assms(1), of pre a b c d] assms(2) show False by simp
qed

lemma search_year_suffix:
  assumes "is_digit a" "is_digit b" "is_digit c" "is_digit d" "list_all is_space w"
  shows "search_year (pre @ CHR ''('' # a # b # c # d # CHR '')'' # w) = Some [a, b, c, d]"
proof (induction pre)
  case Nil
  from assms show ?case by simp
next
  case (Cons p pre)
  have "year_at ((p # pre) @ CHR ''('' # a # b # c # d # CHR '')'' # w) = None"
    using assms(5) by (rule year_at_not_before) simp
  with Cons show ?case by simp
qed

lemma search_year_Some:
  "search_year s = Some g \<Longrightarrow>
     \<exists>pre a b c d w. s = pre @ CHR ''('' # a # b # c # d # CHR '')'' # w \<and> g = [a, b, c, d]
        \<and> is_digit a \<and> is_digit b \<and> is_digit c \<and> is_digit d \<and> list_all is_space w"
proof (induction s)
  case Nil
  then show ?case by simp
next
  case (Cons x xs)
  show ?case
  proof (cases "year_at (x # xs)")
    case (Some g')
    with Cons.prems have "g' = g" by simp
    with Some year_at_Some [of "x # xs" g] show ?thesis by (metis append_Nil)
  next
    case None
    with Cons.prems have "search_year xs = Some g" by simp
    from Cons.IH [OF this] obtain pre a b c d w where
      "xs = pre @ CHR ''('' # a # b # c # d # CHR '')'' # w" "g = [a, b, c, d]"
      "is_digit a" "is_digit b" "is_digit c" "is_digit d" "list_all is_space w"
      by blast
    then have "x # xs = (x # pre) @ CHR ''('' # a # b # c # d # CHR '')'' # w \<and> g = [a, b, c, d]
        \<and> is_digit a \<and> is_digit b \<and> is_digit c \<and> is_digit d \<and> list_all is_space w"
      by simp
    then show ?thesis by blast
  qed
qed

lemma rstrip_all_space: "list_all is_space s \<Longrightarrow> rstrip s = []"
  by (simp add: rstrip_def list_all_iff dropWhile_eq_Nil_conv)

lemma rstrip_append_space: "list_all is_space w \<Longrightarrow> rstrip (s @ w) = rstrip s"
proof -
  assume "list_all is_space w"
  then have "list_all is_space (rev w)" by (simp add: list_all_iff)
  then show ?thesis by (simp add: rstrip_def dropWhile_all)
qed

lemma rstrip_Cons:
  assumes "\<not> list_all is_space (y # ys)"
  shows "rstrip (y # ys) = y # rstrip ys"
proof (cases "list_all is_space ys")
  case True
  with assms have y: "\<not> is_space y" by simp
  from True have "list_all is_space (rev ys)" by (simp add: list_all_iff)
  then have "dropWhile is_space (rev ys @ [y]) = dropWhile is_space [y]" by (rule dropWhile_all)
  with y True show ?thesis by (simp add: rstrip_def rstrip_all_space [unfolded rstrip_def])
next
  case False
  then obtain x where "x \<in> set (rev ys)" "\<not> is_space x" by (auto simp: list_all_iff)
  then have "dropWhile is_space (rev ys @ [y]) = dropWhile is_space (rev ys) @ [y]"
    by (rule dropWhile_append1)
  then show ?thesis by (simp add: rstrip_def)
qed

lemma rstrip_ends_paren: "rstrip (s @ [CHR '')'']) = s @ [CHR '')'']"
  by (simp add: rstrip_def not_space_parens)

lemma rstrip_idem: "rstrip (rstrip s) = rstrip s"
proof (cases "dropWhile is_space (rev s)")
  case Nil
  then show ?thesis by (simp add: rstrip_def)
next
  case (Cons x xs)
  then have "\<not> is_space x" by (metis dropWhile_eq_Cons_conv)
  with Cons show ?thesis by (simp add: rstrip_def)
qed

lemma sub_year_suffix_removes:
  assumes "is_digit a" "is_digit b" "is_digit c" "is_digit d" "list_all is_space w"
  shows "sub_year_suffix (pre @ CHR ''('' # a # b # c # d # CHR '')'' # w) = rstrip pre"
proof (induction pre)
  case Nil
  from assms show ?case by (simp add: not_space_parens rstrip_def)
next
  case (Cons y ys)
  let ?tail = "CHR ''('' # a # b # c # d # CHR '')'' # w"
  show ?case
  proof (cases "list_all is_space (y # ys)")
    case True
    then have "dropWhile is_space ((y # ys) @ ?tail) = dropWhile is_space ?tail"
      by (rule dropWhile_all)
    then have "dropWhile is_space ((y # ys) @ ?tail) = ?tail"
      by (simp add: not_space_parens)
    with assms have "year_at (dropWhile is_space (y # ys @ ?tail)) \<noteq> None" by simp
    then have "sub_year_suffix ((y # ys) @ ?tail) = []" by simp
    with True show ?thesis by (simp add: rstrip_all_space)
  next
    case False
    then obtain x where x: "x \<in> set (y # ys)" "\<not> is_space x" by (auto simp: list_all_iff)
    then have split: "dropWhile is_space ((y # ys) @ ?tail) = dropWhile is_space (y # ys) @ ?tail"
      by (rule dropWhile_append1)
    from x have "dropWhile is_space (y # ys) \<noteq> []"
      by (auto simp: dropWhile_eq_Nil_conv)
    with assms(5) have "year_at (dropWhile is_space (y # ys) @ ?tail) = None"
      by (rule year_at_not_before)
    with split have "year_at (dropWhile is_space (y # ys @ ?tail)) = None" by simp
    then have "sub_year_suffix ((y # ys) @ ?tail) = y # sub_year_suffix (ys @ ?tail)" by simp
    with Cons.IH False show ?thesis by (simp add: rstrip_Cons)
  qed
qed

lemma strip_decompose: "\<exists>l r. s = l @ strip s @ r \<and> list_all is_space l \<and> list_all is_space r"
proof -
  define r where "r = rev (takeWhile is_space (rev s))"
  define l where "l = takeWhile is_space (rstrip s)"
  have "rev (takeWhile is_space (rev s) @ dropWhile is_space (rev s)) = rev (rev s)"
    by (simp only: takeWhile_dropWhile_id)
  then have "rev (dropWhile is_space (rev s)) @ rev (takeWhile is_space (rev s)) = s"
    by (simp only: rev_append rev_rev_ident)
  then have s: "s = rstrip s @ r" by (simp only: rstrip_def r_def)
  have "rstrip s = l @ strip s" by (simp add: l_def strip_def lstrip_def)
  with s have "s = l @ strip s @ r" by simp
  moreover have "list_all is_space l"
    unfolding l_def list_all_iff by (auto dest: set_takeWhileD)
  moreover have "list_all is_space r"
    unfolding r_def list_all_iff by (auto dest: set_takeWhileD)
  ultimately show ?thesis by blast
qed

lemma strip_of_suffix:
  assumes "list_all is_space w"
  shows "\<exists>pre. strip (y @ CHR ''('' # a # b # c # d # CHR '')'' # w)
               = pre @ [CHR ''('', a, b, c, d, CHR '')'']"
proof -
  have "y @ CHR ''('' # a # b # c # d # CHR '')'' # w = ((y @ [CHR ''('', a, b, c, d]) @ [CHR '')'']) @ w"
    by simp
  then have "rstrip (y @ CHR ''('' # a # b # c # d # CHR '')'' # w)
             = rstrip ((y @ [CHR ''('', a, b, c, d]) @ [CHR '')''])"
    using assms by (simp only: rstrip_append_space)
  also have "\<dots> = y @ [CHR ''('', a, b, c, d, CHR '')'']"
    by (simp only: rstrip_ends_paren) simp
  finally have r: "rstrip (y @ CHR ''('' # a # b # c # d # CHR '')'' # w)
                   = y @ CHR ''('' # [a, b, c, d, CHR '')'']" by simp
  have "dropWhile is_space (y @ CHR ''('' # [a, b, c, d, CHR '')''])
        = dropWhile is_space y @ CHR ''('' # [a, b, c, d, CHR '')'']"
    by (rule dropWhile_append3) (rule not_space_parens)
  with r show ?thesis by (simp add: strip_def lstrip_def)
qed

lemma strip_rstrip: "strip (rstrip s) = strip s"
  by (simp add: strip_def rstrip_idem)

lemma strip_append_space: "list_all is_space w \<Longrightarrow> strip (s @ w) = strip s"
  by (simp add: strip_def rstrip_append_space)

lemma sub_year_suffix_none:
  assumes "\<forall>pre a b c d w. is_digit a \<and> is_digit b \<and> is_digit c \<and> is_digit d
              \<and> list_all is_space w \<longrightarrow> s \<noteq> pre @ CHR ''('' # a # b # c # d # CHR '')'' # w"
  shows "sub_year_suffix s = s"
  using assms
proof (induction s)
  case Nil
  then show ?case by simp
next
  case (Cons x xs)
  have "year_at (dropWhile is_space (x # xs)) = None"
  proof (rule ccontr)
    assume "year_at (dropWhile is_space (x # xs)) \<noteq> None"
    then obtain g where "year_at (dropWhile is_space (x # xs)) = Some g" by blast
    from year_at_Some [OF this] obtain a b c d rest where
      dw: "dropWhile is_space (x # xs) = CHR ''('' # a # b # c # d # CHR '')'' # rest"
      and dg: "is_digit a" "is_digit b" "is_digit c" "is_digit d" "list_all is_space rest"
      by blast
    from dw have "x # xs = takeWhile is_space (x # xs) @ CHR ''('' # a # b # c # d # CHR '')'' # rest"
      by (metis takeWhile_dropWhile_id)
    with dg Cons.prems show False by blast
  qed
  moreover have "sub_year_suffix xs = xs"
  proof (rule Cons.IH, intro allI impI)
    fix pre a b c d w
    assume dg: "is_digit a \<and> is_digit b \<and> is_digit c \<and> is_digit d \<and> list_all is_space w"
    show "xs \<noteq> pre @ CHR ''('' # a # b # c # d # CHR '')'' # w"
    proof
      assume "xs = pre @ CHR ''('' # a # b # c # d # CHR '')'' # w"
      then have "x # xs = (x # pre) @ CHR ''('' # a # b # c # d # CHR '')'' # w" by simp
      with dg Cons.prems show False by blast
    qed
  qed
  ultimately show ?case by simp
qed

lemma search_year_none:
  assumes "\<forall>pre a b c d w. is_digit a \<and> is_digit b \<and> is_digit c \<and> is_digit d
              \<and> list_all is_space w \<longrightarrow> s \<noteq> pre @ CHR ''('' # a # b # c # d # CHR '')'' # w"
  shows "search_year (strip s) = None"
proof (rule ccontr)
  assume "search_year (strip s) \<noteq> None"
  then obtain g where "search_year (strip s) = Some g" by blast
  from search_year_Some [OF this] obtain pre a b c d w where
    st: "strip s = pre @ CHR ''('' # a # b # c # d # CHR '')'' # w"
    and dg: "is_digit a" "is_digit b" "is_digit c" "is_digit d" "list_all is_space w"
    by blast
  from strip_decompose [of s] obtain l r where
    s: "s = l @ strip s @ r" and r: "list_all is_space r" by blast
  from s st have "s = (l @ pre) @ CHR ''('' # a # b # c # d # CHR '')'' # (w @ r)" by simp
  moreover from dg r have "list_all is_space (w @ r)" by simp
  ultimately show False using dg assms by blast
qed

text \<open>
  What the second substitution does: the result has no two adjacent whitespace
  characters, and a string without two adjacent whitespace characters is returned as
  it is (a single tab stays a tab).
\<close>

lemma collapse_spaces_Cons:
  "\<not> is_space x \<Longrightarrow> collapse_spaces (x # xs) = x # collapse_spaces xs"
  by (cases xs) simp_all

lemma collapse_spaces_no_run:
  "\<forall>(p, q) \<in> set (zip (collapse_spaces s) (tl (collapse_spaces s))).
     \<not> (is_space p \<and> is_space q)"
proof (induction s rule: collapse_spaces.induct)
  case 1
  then show ?case by simp
next
  case (2 c)
  then show ?case by simp
next
  case (3 c d cs)
  show ?case
  proof (cases "is_space c \<and> is_space d")
    case True
    show ?thesis
    proof (cases "dropWhile is_space cs")
      case Nil
      from True have "collapse_spaces (c # d # cs)
                      = CHR '' '' # collapse_spaces (dropWhile is_space cs)" by simp
      then have "collapse_spaces (c # d # cs) = '' ''"
        by (simp only: Nil collapse_spaces.simps)
      then show ?thesis by simp
    next
      case (Cons y ys)
      then have y: "\<not> is_space y" by (metis dropWhile_eq_Cons_conv)
      from "3.IH"(1) [OF True] Cons y True show ?thesis
        by (simp add: collapse_spaces_Cons)
    qed
  next
    case False
    show ?thesis
    proof (cases "is_space d")
      case True
      with False have c: "\<not> is_space c" by simp
      obtain r rs where r: "collapse_spaces (d # cs) = r # rs"
        by (cases "collapse_spaces (d # cs)"; cases cs) (auto split: if_splits)
      with "3.IH"(2) [OF False] False c show ?thesis by simp
    next
      case d: False
      with "3.IH"(2) [OF False] False show ?thesis
        by (simp add: collapse_spaces_Cons)
    qed
  qed
qed

lemma collapse_spaces_unchanged:
  "\<forall>(p, q) \<in> set (zip s (tl s)). \<not> (is_space p \<and> is_space q) \<Longrightarrow> collapse_spaces s = s"
  by (induction s rule: collapse_spaces.induct) auto

lemma strip_middle:
  assumes "list_all is_space l" and "list_all is_space r"
    and "m = [] \<or> \<not> is_space (hd m) \<and> \<not> is_space (last m)"
  shows "strip (l @ m @ r) = m"
proof (cases "m = []")
  case True
  from assms(1,2) have "list_all is_space (l @ r)" by simp
  then have "rstrip (l @ r) = []" by (rule rstrip_all_space)
  with True show ?thesis by (simp add: strip_def lstrip_def)
next
  case False
  with assms(3) have h: "\<not> is_space (hd m)" and t: "\<not> is_space (last m)" by simp_all
  have "rstrip (l @ m @ r) = rstrip ((l @ m) @ r)" by simp
  also have "\<dots> = rstrip (l @ m)" using assms(2) by (rule rstrip_append_space)
  also have "\<dots> = l @ m"
  proof -
    have "rstrip ((l @ butlast m) @ [last m]) = (l @ butlast m) @ [last m]"
      using t by (simp add: rstrip_def)
    with False show ?thesis by simp
  qed
  finally have r: "rstrip (l @ m @ r) = l @ m" .
  from False obtain a as where m: "m = a # as" by (cases m) auto
  with h have "\<not> is_space a" by simp
  with assms(1) m have "dropWhile is_space (l @ m) = m"
    by (simp add: dropWhile_all)
  with r show ?thesis by (simp add: strip_def lstrip_def)
qed

lemma collapse_spaces_words:
  "list_all (\<lambda>d. \<not> is_space d) w \<Longrightarrow> collapse_spaces (w @ t) = w @ collapse_spaces t"
  by (induction w) (simp_all add: collapse_spaces_Cons)

lemma collapse_spaces_spec: "collapse_spaces s = spec_normalized s"
  unfolding spec_normalized_def
proof (induction s rule: spec_runs.induct)
  case 1
  then show ?case by simp
next
  case (2 c cs)
  show ?case
  proof (cases "is_space c")
    case False
    then have p: "(\<lambda>d. is_space d = is_space c) = (\<lambda>d. \<not> is_space d)" by auto
    let ?w = "c # takeWhile (\<lambda>d. \<not> is_space d) cs"
    have w: "list_all (\<lambda>d. \<not> is_space d) ?w"
      using False unfolding list_all_iff by (auto dest: set_takeWhileD)
    have "collapse_spaces (?w @ dropWhile (\<lambda>d. \<not> is_space d) cs)
               = ?w @ collapse_spaces (dropWhile (\<lambda>d. \<not> is_space d) cs)"
      using w by (rule collapse_spaces_words)
    then have "collapse_spaces (c # cs)
               = ?w @ collapse_spaces (dropWhile (\<lambda>d. \<not> is_space d) cs)"
      by simp
    moreover have "spec_squeeze ?w = ?w" using False by (simp add: spec_squeeze_def)
    ultimately show ?thesis using "2.IH" by (simp add: p)
  next
    case True
    then have p: "(\<lambda>d. is_space d = is_space c) = is_space" by auto
    show ?thesis
    proof (cases cs)
      case Nil
      then show ?thesis by (simp add: spec_squeeze_def)
    next
      case (Cons d ds)
      show ?thesis
      proof (cases "is_space d")
        case d: True
        with True Cons have "collapse_spaces (c # cs)
            = CHR '' '' # collapse_spaces (dropWhile is_space cs)" by simp
        moreover have "spec_squeeze (c # takeWhile is_space cs) = '' ''"
          using True d Cons unfolding spec_squeeze_def list_all_iff
          by (auto dest: set_takeWhileD)
        ultimately show ?thesis using "2.IH" by (simp add: p)
      next
        case d: False
        with True Cons have "collapse_spaces (c # cs) = c # collapse_spaces cs" by simp
        moreover have "takeWhile is_space cs = []" "dropWhile is_space cs = cs"
          using d Cons by simp_all
        ultimately show ?thesis using "2.IH" by (simp add: p spec_squeeze_def)
      qed
    qed
  qed
qed

lemma strip_ends:
  "strip s = [] \<or> \<not> is_space (hd (strip s)) \<and> \<not> is_space (last (strip s))"
proof (cases "strip s = []")
  case True
  then show ?thesis by simp
next
  case False
  have h: "\<not> is_space (hd (strip s))"
    using False unfolding strip_def lstrip_def by (simp add: hd_dropWhile)
  have "rstrip s \<noteq> []" using False by (auto simp: strip_def lstrip_def)
  then have "dropWhile is_space (rev s) \<noteq> []" by (simp add: rstrip_def)
  then have "\<not> is_space (hd (dropWhile is_space (rev s)))" by (rule hd_dropWhile)
  then have "\<not> is_space (last (rstrip s))"
    using \<open>dropWhile is_space (rev s) \<noteq> []\<close> by (simp add: rstrip_def last_rev)
  moreover have "last (strip s) = last (rstrip s)"
    using False unfolding strip_def lstrip_def
    by (metis append_take_drop_id last_appendR takeWhile_dropWhile_id)
  ultimately show ?thesis using h by simp
qed

lemma clean_title_with_suffix:
  assumes "is_digit a" "is_digit b" "is_digit c" "is_digit d"
    and "list_all is_space sep" and "list_all is_space trail"
  shows "clean_title (Str (x @ sep @ [CHR ''('', a, b, c, d, CHR '')''] @ trail))
         = collapse_spaces (strip x)"
proof -
  let ?t = "x @ sep @ [CHR ''('', a, b, c, d, CHR '')''] @ trail"
  have t: "?t = (x @ sep) @ CHR ''('' # a # b # c # d # CHR '')'' # trail" by simp
  from assms have "sub_year_suffix ?t = rstrip (x @ sep)"
    unfolding t by (intro sub_year_suffix_removes) simp_all
  also from assms have "\<dots> = rstrip x" by (simp add: rstrip_append_space)
  finally show ?thesis by (simp add: clean_title_def strip_rstrip)
qed

lemma extract_year_with_suffix:
  assumes "is_digit a" "is_digit b" "is_digit c" "is_digit d"
    and "list_all is_space trail"
  shows "extract_year (Str (x @ sep @ [CHR ''('', a, b, c, d, CHR '')''] @ trail))
         = Some (1000 * digit_value a + 100 * digit_value b + 10 * digit_value c
                 + digit_value d)"
proof -
  let ?t = "x @ sep @ [CHR ''('', a, b, c, d, CHR '')''] @ trail"
  from assms strip_of_suffix [of trail "x @ sep" a b c d] obtain pre where
    "strip ?t = pre @ CHR ''('' # a # b # c # d # CHR '')'' # []" by auto
  moreover from assms have "search_year (pre @ CHR ''('' # a # b # c # d # CHR '')'' # [])
      = Some [a, b, c, d]"
    by (intro search_year_suffix) simp_all
  ultimately show ?thesis by (simp add: extract_year_def int_of_digits_def)
qed

lemma without_suffix:
  assumes "\<forall>pre a b c d w. is_digit a \<and> is_digit b \<and> is_digit c \<and> is_digit d
          \<and> list_all is_space w \<longrightarrow> title \<noteq> pre @ CHR ''('' # a # b # c # d # CHR '')'' # w"
  shows "extract_year (Str title) = None"
    and "clean_title (Str title) = collapse_spaces (strip title)"
  using assms by (simp_all add: extract_year_def search_year_none clean_title_def
      sub_year_suffix_none)

section \<open>Properties of the ratings validation\<close>

text \<open>
  The first row of every raw key is kept and no other: the keys of the rows kept are
  distinct as they stand in the input.
\<close>

lemma keep_first_distinct:
  "distinct (map key (keep_first key seen rs))
   \<and> (\<forall>r \<in> set (keep_first key seen rs). key r \<notin> set seen)"
proof (induction rs arbitrary: seen)
  case Nil
  then show ?case by simp
next
  case (Cons r rs)
  show ?case
  proof (cases "key r \<in> set seen")
    case True
    with Cons.IH [of seen] show ?thesis by simp
  next
    case False
    from Cons.IH [of "key r # seen"]
    have d: "distinct (map key (keep_first key (key r # seen) rs))"
      and n: "\<forall>x \<in> set (keep_first key (key r # seen) rs). key x \<notin> set (key r # seen)"
      by simp_all
    from n have "key r \<notin> key ` set (keep_first key (key r # seen) rs)" by auto
    with d n False show ?thesis by auto
  qed
qed

text \<open>
  Every row of the validated table has a finite score between 0.5 and 5 and an instant
  as its timestamp, whatever the two library conversions do.
\<close>

lemma map_of_row_set: "map_of (row_set r l v) k = (if k = l then Some v else map_of r k)"
  by (induction r l v rule: row_set.induct) auto

lemma assign_column_rows:
  assumes "r' \<in> set (df_rows (assign_column df l vals))"
  shows "\<exists>r v. r \<in> set (df_rows df) \<and> r' = row_set r l v"
proof -
  from assms obtain r v where "(r, v) \<in> set (zip (df_rows df) vals)" "r' = row_set r l v"
    by (auto simp: assign_column_def)
  then show ?thesis by (auto dest: set_zip_leftD)
qed

lemma map_of_map_cell:
  "map_of (map (\<lambda>(l, v). (l, f v)) r) k = map_option f (map_of r k)"
  by (induction r) auto

lemma in_range_is_finite:
  assumes "number_ge n (1 / 2)" and "number_le n 5"
  shows "\<exists>x. n = Fin x \<and> 1 / 2 \<le> x \<and> x \<le> 5"
  using assms by (cases n) (auto simp: number_ge_def number_le_def)

lemma validated_rows_in_range:
  assumes "validate_ratings_dataframe parse to_ns ratings_df = Inr out"
    and "r \<in> set (df_rows out)"
  shows "\<exists>x t. map_of r ''rating'' = Some (Cell (Number (Fin x))) \<and> 1 / 2 \<le> x \<and> x \<le> 5
           \<and> map_of r ''timestamp'' = Some (Timestamp t)"
proof -
  from assms(1) obtain df1 scores times seconds where
    "drop_duplicates ratings_df [''userId'', ''movieId'', ''timestamp''] = Inr df1"
    and "column df1 ''rating'' = Inr scores"
    and out: "out = filter_rows (\<lambda>r. case map_of r ''timestamp'' of
                                   Some (Timestamp t) \<Rightarrow> True | other \<Rightarrow> False)
        (assign_column
           \<lparr>df_columns = df_columns (filter_rows (\<lambda>r. case (map_of r ''rating'', map_of r ''timestamp'') of
                                   (Some a, Some b) \<Rightarrow> \<not> isna a \<and> \<not> isna b
                                 | other \<Rightarrow> False)
               (assign_column (filter_rows (\<lambda>r. case map_of r ''rating'' of
                                   Some (Number n) \<Rightarrow> number_ge n (1 / 2) \<and> number_le n 5
                                 | other \<Rightarrow> False)
                  (assign_column df1 ''rating'' (map (\<lambda>c. Number (to_numeric parse c)) scores)))
                  ''timestamp'' (map (\<lambda>c. Number (to_numeric parse c)) times))),
            df_rows = map (map (\<lambda>(l, v). (l, Cell v)))
              (df_rows (filter_rows (\<lambda>r. case (map_of r ''rating'', map_of r ''timestamp'') of
                                   (Some a, Some b) \<Rightarrow> \<not> isna a \<and> \<not> isna b
                                 | other \<Rightarrow> False)
               (assign_column (filter_rows (\<lambda>r. case map_of r ''rating'' of
                                   Some (Number n) \<Rightarrow> number_ge n (1 / 2) \<and> number_le n 5
                                 | other \<Rightarrow> False)
                  (assign_column df1 ''rating'' (map (\<lambda>c. Number (to_numeric parse c)) scores)))
                  ''timestamp'' (map (\<lambda>c. Number (to_numeric parse c)) times))))\<rparr>
           ''timestamp'' (map (to_datetime to_ns) seconds))"
    by (auto simp: validate_ratings_dataframe_def and_then_def Let_def split: sum.splits)
  define df3 where "df3 = filter_rows (\<lambda>r. case map_of r ''rating'' of
                                   Some (Number n) \<Rightarrow> number_ge n (1 / 2) \<and> number_le n 5
                                 | other \<Rightarrow> False)
                  (assign_column df1 ''rating'' (map (\<lambda>c. Number (to_numeric parse c)) scores))"
  define df5 where "df5 = filter_rows (\<lambda>r. case (map_of r ''rating'', map_of r ''timestamp'') of
                                   (Some a, Some b) \<Rightarrow> \<not> isna a \<and> \<not> isna b
                                 | other \<Rightarrow> False)
               (assign_column df3 ''timestamp'' (map (\<lambda>c. Number (to_numeric parse c)) times))"
  define df6 where "df6 = assign_column
           \<lparr>df_columns = df_columns df5, df_rows = map (map (\<lambda>(l, v). (l, Cell v))) (df_rows df5)\<rparr>
           ''timestamp'' (map (to_datetime to_ns) seconds)"
  have out': "out = filter_rows (\<lambda>r. case map_of r ''timestamp'' of
                                   Some (Timestamp t) \<Rightarrow> True | other \<Rightarrow> False) df6"
    unfolding out df6_def df5_def df3_def ..
  have r3: "\<exists>x. map_of r3 ''rating'' = Some (Number (Fin x)) \<and> 1 / 2 \<le> x \<and> x \<le> 5"
    if "r3 \<in> set (df_rows df3)" for r3
  proof -
    from that have keep: "case map_of r3 ''rating'' of
                       Some (Number n) \<Rightarrow> number_ge n (1 / 2) \<and> number_le n 5
                     | other \<Rightarrow> False"
      by (simp add: df3_def filter_rows_def)
    then obtain n where "map_of r3 ''rating'' = Some (Number n)"
      "number_ge n (1 / 2)" "number_le n 5"
      by (auto split: option.splits cell.splits)
    with in_range_is_finite [of n] show ?thesis by auto
  qed
  have r5: "\<exists>x. map_of r5 ''rating'' = Some (Number (Fin x)) \<and> 1 / 2 \<le> x \<and> x \<le> 5"
    if "r5 \<in> set (df_rows df5)" for r5
  proof -
    from that have "r5 \<in> set (df_rows (assign_column df3 ''timestamp''
                        (map (\<lambda>c. Number (to_numeric parse c)) times)))"
      by (simp add: df5_def filter_rows_def)
    from assign_column_rows [OF this] obtain r3 v where
      "r3 \<in> set (df_rows df3)" "r5 = row_set r3 ''timestamp'' v" by blast
    with r3 [of r3] show ?thesis by (simp add: map_of_row_set)
  qed
  from assms(2) have in6: "r \<in> set (df_rows df6)"
    and ts: "case map_of r ''timestamp'' of Some (Timestamp t) \<Rightarrow> True | other \<Rightarrow> False"
    by (simp_all add: out' filter_rows_def)
  from assign_column_rows [OF in6 [unfolded df6_def]] obtain r6 v where
    "r6 \<in> set (map (map (\<lambda>(l, v). (l, Cell v))) (df_rows df5))" "r = row_set r6 ''timestamp'' v"
    by auto
  then obtain r5 where "r5 \<in> set (df_rows df5)"
    and r: "r = row_set (map (\<lambda>(l, v). (l, Cell v)) r5) ''timestamp'' v" by auto
  with r5 [of r5] obtain x where "map_of r5 ''rating'' = Some (Number (Fin x))"
    "1 / 2 \<le> x" "x \<le> 5" by blast
  then have "map_of r ''rating'' = Some (Cell (Number (Fin x)))"
    by (simp add: r map_of_row_set map_of_map_cell)
  moreover from ts obtain t where "map_of r ''timestamp'' = Some (Timestamp t)"
    by (auto split: option.splits tcell.splits)
  ultimately show ?thesis using \<open>1 / 2 \<le> x\<close> \<open>x \<le> 5\<close> by blast
qed

section \<open>Claims about the transformation\<close>

text \<open>
  C5 fails on the code. The two ratings below are by the same user for the same movie;
  their timestamps are the strings \<open>100\<close> and \<open>100.0\<close>. The duplicates are dropped
  before the timestamps are made numeric, so the two rows have different keys then and
  both are kept; afterwards both timestamps are the instant 100 seconds after the epoch,
  and the validated table holds two rows with the same user, movie and timestamp.
\<close>

theorem duplicate_after_coercion_survives:
  "validate_ratings_dataframe parse_decimal seconds_to_ns
     \<lparr>df_columns = [''userId'', ''movieId'', ''rating'', ''timestamp''],
      df_rows = [[(''userId'', Number (Fin 1)), (''movieId'', Number (Fin 1)),
                  (''rating'', Number (Fin 4)), (''timestamp'', Str ''100'')],
                 [(''userId'', Number (Fin 1)), (''movieId'', Number (Fin 1)),
                  (''rating'', Number (Fin (9 / 2))), (''timestamp'', Str ''100.0'')]]\<rparr>
   = Inr \<lparr>df_columns = [''userId'', ''movieId'', ''rating'', ''timestamp''],
          df_rows = [[(''userId'', Cell (Number (Fin 1))), (''movieId'', Cell (Number (Fin 1))),
                      (''rating'', Cell (Number (Fin 4))), (''timestamp'', Timestamp 100000000000)],
                     [(''userId'', Cell (Number (Fin 1))), (''movieId'', Cell (Number (Fin 1))),
                      (''rating'', Cell (Number (Fin (9 / 2)))),
                      (''timestamp'', Timestamp 100000000000)]]\<rparr>"
  by (simp add: validate_ratings_dataframe_def drop_duplicates_def and_then_def column_def
      row_get_def assign_column_def filter_rows_def to_numeric_def to_datetime_def
      number_ge_def number_le_def isna_def parse_decimal_def seconds_to_ns_def
      is_digit_def int_of_digits_def digit_value_def Let_def)

text \<open>
  C9 (as amended). Let a title be a text \<open>X\<close>, whitespace, a parenthesized four-digit
  year \<open>(YYYY)\<close> and possibly trailing whitespace, where \<open>X\<close> is \<open>l @ m @ r\<close> with \<open>l\<close>
  and \<open>r\<close> its leading and trailing whitespace and \<open>m\<close> the text between them (empty,
  or beginning and ending with a character that is not whitespace). Then cleaning
  yields \<open>m\<close> with every run of two or more whitespace characters replaced by one space
  and every other character kept, a single whitespace character such as a tab
  included, and year extraction yields the number \<open>YYYY\<close>. For every title that does not
  end in such a suffix, year extraction yields no year and cleaning yields the title
  with the same normalization: leading and trailing whitespace removed, runs of two or
  more whitespace characters replaced by one space, nothing else changed. Every string
  has the form \<open>l @ m @ r\<close>.
\<close>

theorem title_cleaning_and_year:
  "(is_digit a \<and> is_digit b \<and> is_digit c \<and> is_digit d
      \<and> list_all is_space sep \<and> list_all is_space trail
      \<and> list_all is_space l \<and> list_all is_space r
      \<and> (m = [] \<or> \<not> is_space (hd m) \<and> \<not> is_space (last m)) \<longrightarrow>
      clean_title (Str ((l @ m @ r) @ sep @ [CHR ''('', a, b, c, d, CHR '')''] @ trail))
        = spec_normalized m
      \<and> extract_year (Str ((l @ m @ r) @ sep @ [CHR ''('', a, b, c, d, CHR '')''] @ trail))
        = Some (1000 * digit_value a + 100 * digit_value b + 10 * digit_value c + digit_value d))
   \<and> ((\<forall>pre a b c d w. is_digit a \<and> is_digit b \<and> is_digit c \<and> is_digit d
          \<and> list_all is_space w \<longrightarrow> title \<noteq> pre @ CHR ''('' # a # b # c # d # CHR '')'' # w)
       \<and> title = lt @ mt @ rt \<and> list_all is_space lt \<and> list_all is_space rt
       \<and> (mt = [] \<or> \<not> is_space (hd mt) \<and> \<not> is_space (last mt)) \<longrightarrow>
      extract_year (Str title) = None
      \<and> clean_title (Str title) = spec_normalized mt)
   \<and> (\<exists>l m r. x = l @ m @ r \<and> list_all is_space l \<and> list_all is_space r
         \<and> (m = [] \<or> \<not> is_space (hd m) \<and> \<not> is_space (last m)))"
proof (intro conjI impI)
  assume h: "is_digit a \<and> is_digit b \<and> is_digit c \<and> is_digit d
      \<and> list_all is_space sep \<and> list_all is_space trail
      \<and> list_all is_space l \<and> list_all is_space r
      \<and> (m = [] \<or> \<not> is_space (hd m) \<and> \<not> is_space (last m))"
  then have "strip (l @ m @ r) = m" by (intro strip_middle) simp_all
  moreover from h
  have "clean_title (Str ((l @ m @ r) @ sep @ [CHR ''('', a, b, c, d, CHR '')''] @ trail))
        = collapse_spaces (strip (l @ m @ r))"
    by (intro clean_title_with_suffix) simp_all
  ultimately
  show "clean_title (Str ((l @ m @ r) @ sep @ [CHR ''('', a, b, c, d, CHR '')''] @ trail))
        = spec_normalized m"
    by (simp only: collapse_spaces_spec)
  from h
  show "extract_year (Str ((l @ m @ r) @ sep @ [CHR ''('', a, b, c, d, CHR '')''] @ trail))
      = Some (1000 * digit_value a + 100 * digit_value b + 10 * digit_value c + digit_value d)"
    by (intro extract_year_with_suffix) simp_all
next
  assume h: "(\<forall>pre a b c d w. is_digit a \<and> is_digit b \<and> is_digit c \<and> is_digit d
          \<and> list_all is_space w \<longrightarrow> title \<noteq> pre @ CHR ''('' # a # b # c # d # CHR '')'' # w)
       \<and> title = lt @ mt @ rt \<and> list_all is_space lt \<and> list_all is_space rt
       \<and> (mt = [] \<or> \<not> is_space (hd mt) \<and> \<not> is_space (last mt))"
  then have no: "\<forall>pre a b c d w. is_digit a \<and> is_digit b \<and> is_digit c \<and> is_digit d
          \<and> list_all is_space w \<longrightarrow> title \<noteq> pre @ CHR ''('' # a # b # c # d # CHR '')'' # w"
    by (rule conjunct1)
  from no show "extract_year (Str title) = None" by (rule without_suffix(1))
  from h have "strip (lt @ mt @ rt) = mt" by (intro strip_middle) simp_all
  with h have "strip title = mt" by simp
  moreover from no have "clean_title (Str title) = collapse_spaces (strip title)"
    by (rule without_suffix(2))
  ultimately show "clean_title (Str title) = spec_normalized mt"
    by (simp only: collapse_spaces_spec)
next
  from strip_decompose [of x] obtain l r where
    d: "x = l @ strip x @ r" "list_all is_space l" "list_all is_space r" by blast
  have "strip x = [] \<or> \<not> is_space (hd (strip x)) \<and> \<not> is_space (last (strip x))"
    by (rule strip_ends)
  with d show "\<exists>l m r. x = l @ m @ r \<and> list_all is_space l \<and> list_all is_space r
         \<and> (m = [] \<or> \<not> is_space (hd m) \<and> \<not> is_space (last m))"
    by blast
qed

theorem title_cleaning_and_year_witness:
  "is_digit CHR ''1'' \<and> is_digit CHR ''9'' \<and> is_digit CHR ''5''
   \<and> list_all is_space ''  '' \<and> list_all is_space '' '' \<and> list_all is_space []
   \<and> clean_title (Str ('' Toy   Story'' @ [CHR 0x09] @ ''II  (1995) ''))
       = ''Toy Story'' @ [CHR 0x09] @ ''II''
   \<and> extract_year (Str ('' Toy   Story'' @ [CHR 0x09] @ ''II  (1995) '')) = Some 1995
   \<and> extract_year (Str '' A  B'') = None
   \<and> clean_title (Str '' A  B'') = ''A B''"
proof -
  let ?m = "''Toy   Story'' @ [CHR 0x09] @ ''II''"
  have h1: "is_digit CHR ''1'' \<and> is_digit CHR ''9'' \<and> is_digit CHR ''9'' \<and> is_digit CHR ''5''
      \<and> list_all is_space ''  '' \<and> list_all is_space '' ''
      \<and> list_all is_space '' '' \<and> list_all is_space []
      \<and> (?m = [] \<or> \<not> is_space (hd ?m) \<and> \<not> is_space (last ?m))"
    by (simp add: is_digit_def is_space_def)
  have no: "\<forall>pre a b c d w. is_digit a \<and> is_digit b \<and> is_digit c \<and> is_digit d
          \<and> list_all is_space w \<longrightarrow> '' A  B'' \<noteq> pre @ CHR ''('' # a # b # c # d # CHR '')'' # w"
  proof (intro allI impI notI)
    fix pre a b c d w
    assume "'' A  B'' = pre @ CHR ''('' # a # b # c # d # CHR '')'' # w"
    then have "length '' A  B'' = length (pre @ CHR ''('' # a # b # c # d # CHR '')'' # w)"
      by (rule arg_cong)
    then show False by simp
  qed
  have form: "'' A  B'' = '' '' @ ''A  B'' @ [] \<and> list_all is_space '' '' \<and> list_all is_space []
       \<and> (''A  B'' = [] \<or> \<not> is_space (hd ''A  B'') \<and> \<not> is_space (last ''A  B''))"
    by (simp add: is_space_def)
  note T = title_cleaning_and_year
    [where a = "CHR ''1''" and b = "CHR ''9''" and c = "CHR ''9''" and d = "CHR ''5''"
       and sep = "''  ''" and trail = "'' ''" and l = "'' ''" and m = ?m and r = "[]"
       and title = "'' A  B''" and lt = "'' ''" and mt = "''A  B''" and rt = "[]"]
  from T [THEN conjunct1, THEN mp, OF h1]
  have c1: "clean_title (Str (('' '' @ ?m @ []) @ ''  '' @
        [CHR ''('', CHR ''1'', CHR ''9'', CHR ''9'', CHR ''5'', CHR '')''] @ '' ''))
        = spec_normalized ?m"
    and y1: "extract_year (Str (('' '' @ ?m @ []) @ ''  '' @
        [CHR ''('', CHR ''1'', CHR ''9'', CHR ''9'', CHR ''5'', CHR '')''] @ '' ''))
        = Some (1000 * digit_value CHR ''1'' + 100 * digit_value CHR ''9''
                + 10 * digit_value CHR ''9'' + digit_value CHR ''5'')"
    by (rule conjunct1, rule conjunct2)
  from no form have h2: "(\<forall>pre a b c d w. is_digit a \<and> is_digit b \<and> is_digit c \<and> is_digit d
          \<and> list_all is_space w \<longrightarrow> '' A  B'' \<noteq> pre @ CHR ''('' # a # b # c # d # CHR '')'' # w)
       \<and> '' A  B'' = '' '' @ ''A  B'' @ [] \<and> list_all is_space '' '' \<and> list_all is_space []
       \<and> (''A  B'' = [] \<or> \<not> is_space (hd ''A  B'') \<and> \<not> is_space (last ''A  B''))"
    by (rule conjI)
  from T [THEN conjunct2, THEN conjunct1, THEN mp, OF h2]
  have n: "extract_year (Str '' A  B'') = None"
    and c2: "clean_title (Str '' A  B'') = spec_normalized ''A  B''"
    by (rule conjunct1, rule conjunct2)
  have e1: "spec_normalized ?m = ''Toy Story'' @ [CHR 0x09] @ ''II''"
    by (simp add: spec_normalized_def spec_squeeze_def is_space_def)
  have e2: "spec_normalized ''A  B'' = ''A B''"
    by (simp add: spec_normalized_def spec_squeeze_def is_space_def)
  from c1 e1 have c1': "clean_title (Str ('' Toy   Story'' @ [CHR 0x09] @ ''II  (1995) ''))
       = ''Toy Story'' @ [CHR 0x09] @ ''II''" by simp
  from y1 have y1': "extract_year (Str ('' Toy   Story'' @ [CHR 0x09] @ ''II  (1995) ''))
       = Some 1995"
    by (simp add: digit_value_def)
  from c2 e2 have c2': "clean_title (Str '' A  B'') = ''A B''" by simp
  from h1 have d: "is_digit CHR ''1'' \<and> is_digit CHR ''9'' \<and> is_digit CHR ''5''
      \<and> list_all is_space ''  '' \<and> list_all is_space '' '' \<and> list_all is_space []"
    by simp
  from d c1' y1' n c2' show ?thesis by (intro conjI) simp_all
qed

text \<open>
  C9 as stated fails: a tab is whitespace, and the title \<open>Toy<tab>Story (1995)\<close> is
  cleaned to \<open>Toy<tab>Story\<close>. The whitespace between the two words is not collapsed to
  a single space, because the second substitution only matches runs of two or more
  whitespace characters.
\<close>

theorem lone_tab_is_kept_counterexample:
  "is_space (CHR 0x09)
   \<and> clean_title (Str (''Toy'' @ [CHR 0x09] @ ''Story (1995)'')) = ''Toy'' @ [CHR 0x09] @ ''Story''
   \<and> clean_title (Str (''Toy'' @ [CHR 0x09] @ ''Story (1995)'')) \<noteq> ''Toy Story''
   \<and> extract_year (Str (''Toy'' @ [CHR 0x09] @ ''Story (1995)'')) = Some 1995"
  by (simp add: clean_title_def extract_year_def strip_def lstrip_def rstrip_def is_space_def
      is_digit_def int_of_digits_def digit_value_def)
end
